theory Spec2Isabelle
  imports Main "HOL-Library.Sublist" "HOL-Library.Product_Lexorder" "HOL-Library.AList"
begin

section \<open>Exceptions and results\<close>

text \<open>
  The exceptions that \<^verbatim>\<open>teuthology/provision/cloud/openstack.py\<close> raises, catches or lets
  pass. \<open>RuntimeError\<close> carries the argument tuple it was built with, \<open>OtherError\<close> stands
  for any exception of the backend that the module does not name. All of them derive from
  Python's \<open>Exception\<close>, so a bare \<^verbatim>\<open>except Exception\<close> catches every value of this type.
  A computation that may raise returns \<open>exc + 'a\<close>, with \<open>Inl\<close> the exception.
\<close>

datatype exc =
    RateLimitReachedError
  | MaxWhileTries
  | AttributeError
  | IndexError
  | RuntimeError "string list"
  | SocketError
  | NoValidConnectionsError
  | AuthenticationException
  | HTTPError
  | OtherError string

section \<open>The retry wrapper\<close>

definition RETRY_EXCEPTIONS :: "exc list" where
  "RETRY_EXCEPTIONS = [RateLimitReachedError]"

text \<open>
  Modelled from the spec: \<^verbatim>\<open>teuthology.contextutil.safe_while\<close> is not part of the sources.
  The spec bounds the wrapper to a fixed number of attempts, after which a timeout error
  propagates: \<open>proceed tries counter\<close> is the call of \<^verbatim>\<open>proceed()\<close> made after \<open>counter\<close>
  earlier calls; it lets the loop run while fewer than \<open>tries\<close> rounds were started and
  raises \<open>MaxWhileTries\<close> afterwards. The sleep between two rounds takes time only and is
  left out.
\<close>

definition proceed :: "nat \<Rightarrow> nat \<Rightarrow> exc + bool" where
  "proceed tries counter = (if counter < tries then Inr True else Inl MaxWhileTries)"

text \<open>
  What is left of the \<^verbatim>\<open>try\<close> block once the call has come back with \<open>r\<close>: when it
  returned and \<^verbatim>\<open>tries > 1\<close>, the debug message reads \<^verbatim>\<open>function.__name__\<close>, which raises
  \<open>AttributeError\<close> on a callable that has no such attribute (\<open>fname = None\<close>); then the
  result is returned.
\<close>

definition after_call :: "nat \<Rightarrow> string option \<Rightarrow> exc + 'a \<Rightarrow> exc + 'a" where
  "after_call tries fname r =
     (case r of
        Inl e \<Rightarrow> Inl e
      | Inr result \<Rightarrow>
          if tries > 1 then (case fname of None \<Rightarrow> Inl AttributeError | Some n \<Rightarrow> Inr result)
          else Inr result)"

text \<open>
  \<^verbatim>\<open>retry(function, *args, **kwargs)\<close>. The callable is its attribute \<^verbatim>\<open>__name__\<close>, if it
  has one, and a state transformer: it may change the world each time it is invoked,
  whether it returns or raises. \<open>retry_from tries\<close> is the \<^verbatim>\<open>while proceed()\<close> loop entered
  with the local counter \<^verbatim>\<open>tries\<close> at the given value, which the round increments before
  the call; an exception of the \<^verbatim>\<open>try\<close> block that is in \<open>RETRY_EXCEPTIONS\<close> starts the
  next round, any other leaves \<^verbatim>\<open>retry\<close>. The budget of
  \<^verbatim>\<open>safe_while(sleep=1, tries=24, increment=1)\<close> is 24.
\<close>

function retry_from :: "nat \<Rightarrow> string option \<Rightarrow> ('s \<Rightarrow> (exc + 'a) \<times> 's) \<Rightarrow> 's \<Rightarrow> (exc + 'a) \<times> 's" where
  "retry_from tries fname function s =
     (case proceed 24 tries of
        Inl e \<Rightarrow> (Inl e, s)
      | Inr go \<Rightarrow>
          (case function s of
             (r, s') \<Rightarrow>
               (case after_call (tries + 1) fname r of
                  Inr result \<Rightarrow> (Inr result, s')
                | Inl e \<Rightarrow>
                    if e \<in> set RETRY_EXCEPTIONS then retry_from (tries + 1) fname function s'
                    else (Inl e, s'))))"
  by pat_completeness auto
termination
  by (relation "measure (\<lambda>(tries, fname, function, s). 24 - tries)")
     (auto simp: proceed_def split: if_splits)

definition retry :: "string option \<Rightarrow> ('s \<Rightarrow> (exc + 'a) \<times> 's) \<Rightarrow> 's \<Rightarrow> (exc + 'a) \<times> 's" where
  "retry fname function s = retry_from 0 fname function s"

text \<open>
  Instruments for stating how often an operation ran: \<open>counting function\<close> runs
  \<open>function\<close> on the second component of the state and counts the invocation in the first;
  \<open>state_after function s i\<close> is the world after \<open>i\<close> invocations from \<open>s\<close>.
\<close>

definition counting :: "('s \<Rightarrow> (exc + 'a) \<times> 's) \<Rightarrow> nat \<times> 's \<Rightarrow> (exc + 'a) \<times> (nat \<times> 's)" where
  "counting function = (\<lambda>(n, s). case function s of (r, s') \<Rightarrow> (r, (Suc n, s')))"

definition state_after :: "('s \<Rightarrow> (exc + 'a) \<times> 's) \<Rightarrow> 's \<Rightarrow> nat \<Rightarrow> 's" where
  "state_after function s i = ((\<lambda>t. snd (function t)) ^^ i) s"

section \<open>Catalog entries and the resource selector\<close>

record image =
  image_name :: string
  image_id :: nat

record node_size =
  size_name :: string
  ram :: int
  disk :: int
  vcpus :: int

record security_group =
  group_name :: string
  group_id :: nat

record volume =
  volume_name :: string
  volume_id :: nat

record cloud_node =
  node_name :: string
  node_id :: nat

text \<open>
  The five numeric leaves of \<^verbatim>\<open>self.conf\<close> that the provisioner reads:
  \<^verbatim>\<open>conf['machine']['ram']\<close>, \<^verbatim>\<open>['disk']\<close>, \<^verbatim>\<open>['cpus']\<close>, \<^verbatim>\<open>conf['volumes']['count']\<close> and
  \<^verbatim>\<open>['size']\<close>. Python's integers are unbounded, hence \<open>int\<close>.
\<close>

record sizing =
  machine_ram :: int
  machine_disk :: int
  machine_cpus :: int
  volumes_count :: int
  volumes_size :: int

subsection \<open>Strings\<close>

text \<open>
  \<^verbatim>\<open>str.lower()\<close> on the ASCII letters; every other byte is kept. \<^verbatim>\<open>a in b\<close> on strings is
  \<^const>\<open>sublist\<close> (a contiguous run), \<^verbatim>\<open>b.startswith(a)\<close> is \<^const>\<open>prefix\<close>.
\<close>

definition lower_char :: "char \<Rightarrow> char" where
  "lower_char c =
     (let n = (of_char c :: nat) in if 65 \<le> n \<and> n \<le> 90 then char_of (n + 32) else c)"

definition lower :: "string \<Rightarrow> string" where
  "lower s = map lower_char s"

text \<open>What \<^verbatim>\<open>str.format\<close> and \<^verbatim>\<open>%s\<close> print for a value that may be \<^verbatim>\<open>None\<close>.\<close>

definition py_str :: "string option \<Rightarrow> string" where
  "py_str v = (case v of None \<Rightarrow> ''None'' | Some s \<Rightarrow> s)"

text \<open>
  \<^verbatim>\<open>spec.format(os_type=..., os_version=...)\<close> for a template whose only replacement
  fields are \<^verbatim>\<open>{os_type}\<close> and \<^verbatim>\<open>{os_version}\<close>.
\<close>

fun format_spec :: "string \<Rightarrow> string \<Rightarrow> string \<Rightarrow> string" where
  "format_spec [] os_type os_version = []"
| "format_spec (c # cs) os_type os_version =
     (if prefix ''{os_type}'' (c # cs) then os_type @ format_spec (drop 8 cs) os_type os_version
      else if prefix ''{os_version}'' (c # cs)
        then os_version @ format_spec (drop 11 cs) os_type os_version
      else c # format_spec cs os_type os_version)"

subsection \<open>Image selection\<close>

definition os_specs :: "string list" where
  "os_specs = [''{os_type} {os_version}'', ''{os_type}-{os_version}'']"

text \<open>
  The \<^verbatim>\<open>for spec in os_specs\<close> loop of the \<^verbatim>\<open>image\<close> property: the value of \<^verbatim>\<open>matches\<close>
  when the loop is left, by \<^verbatim>\<open>break\<close> at the first template with a match or after the
  last template.
\<close>

fun image_matches :: "string list \<Rightarrow> image list \<Rightarrow> string option \<Rightarrow> string option \<Rightarrow> image list" where
  "image_matches [] images os_type os_version = []"
| "image_matches (spec # specs) images os_type os_version =
     (let matches = filter (\<lambda>image.
            sublist (format_spec spec (py_str os_type) (py_str os_version))
                    (lower (image_name image))) images
      in if matches \<noteq> [] then matches
         else image_matches specs images os_type os_version)"

definition image_property :: "image list \<Rightarrow> string option \<Rightarrow> string option \<Rightarrow> exc + image" where
  "image_property images os_type os_version =
     (case image_matches os_specs images os_type os_version of
        [] \<Rightarrow> Inl (RuntimeError [''Could not find an image for %s %s'',
                                 py_str os_type, py_str os_version])
      | m # ms \<Rightarrow> Inr m)"

text \<open>
  Image selection as the specification words it, for comparison with \<open>image_property\<close>:
  the two templates in order, each matched as a case-insensitive substring of the
  catalog name, that is with both sides folded to lower case.
\<close>

definition image_selection_spec :: "image list \<Rightarrow> string \<Rightarrow> string \<Rightarrow> exc + image" where
  "image_selection_spec images os_type os_version =
     (case filter (\<lambda>image. sublist (lower (os_type @ '' '' @ os_version))
                                   (lower (image_name image))) images of
        m # ms \<Rightarrow> Inr m
      | [] \<Rightarrow>
         (case filter (\<lambda>image. sublist (lower (os_type @ ''-'' @ os_version))
                                       (lower (image_name image))) images of
            m # ms \<Rightarrow> Inr m
          | [] \<Rightarrow> Inl (RuntimeError [''Could not find an image for %s %s'',
                                     os_type, os_version])))"

subsection \<open>Size selection\<close>

definition good_size :: "int \<Rightarrow> int \<Rightarrow> int \<Rightarrow> node_size \<Rightarrow> bool" where
  "good_size ram' disk' cpu size' =
     (if ram size' < ram' \<or> disk size' < disk' \<or> vcpus size' < cpu then False else True)"

text \<open>
  The \<^verbatim>\<open>size\<close> property. \<^verbatim>\<open>sorted(..., key=...)\<close> is a stable sort on the key tuples in
  their lexicographic order, as \<^const>\<open>sort_key\<close> is on pairs; \<^verbatim>\<open>[0]\<close> on the empty list
  raises \<open>IndexError\<close>.
\<close>

definition size_property :: "sizing \<Rightarrow> node_size list \<Rightarrow> exc + node_size" where
  "size_property conf all_sizes =
     (let ram' = machine_ram conf;
          disk' = machine_disk conf;
          cpu = machine_cpus conf;
          good_sizes = filter (good_size ram' disk' cpu) all_sizes
      in case sort_key (\<lambda>s. (ram s, disk s, vcpus s)) good_sizes of
           [] \<Rightarrow> Inl IndexError
         | smallest_match # rest \<Rightarrow> Inr smallest_match)"

subsection \<open>Security groups\<close>

definition quoted :: "string \<Rightarrow> string" where
  "quoted s = [CHR 0x27] @ s @ [CHR 0x27]"

text \<open>
  The \<^verbatim>\<open>for name in group_names\<close> loop of the \<^verbatim>\<open>security_groups\<close> property, with
  \<^verbatim>\<open>result\<close> as accumulator.
\<close>

fun security_groups_loop :: "security_group list \<Rightarrow> string list \<Rightarrow> security_group list \<Rightarrow> exc + security_group list" where
  "security_groups_loop groups [] result = Inr result"
| "security_groups_loop groups (name # names) result =
     (case filter (\<lambda>group. group_name group = name) groups of
        [] \<Rightarrow> Inl (RuntimeError [''No security groups found with name '' @ quoted name])
      | [m] \<Rightarrow> security_groups_loop groups names (result @ [m])
      | m # m' # ms \<Rightarrow>
          Inl (RuntimeError [''More than one security group found with name '' @ quoted name]))"

definition security_groups :: "string list option \<Rightarrow> security_group list \<Rightarrow> exc + security_group list option" where
  "security_groups group_names groups =
     (case group_names of
        None \<Rightarrow> Inr None
      | Some names \<Rightarrow>
          (case security_groups_loop groups names [] of
             Inl e \<Rightarrow> Inl e
           | Inr result \<Rightarrow> Inr (Some result)))"

section \<open>The cloud backend and the provisioning session\<close>

text \<open>
  The arguments of \<^verbatim>\<open>driver.create_node\<close>: \<^verbatim>\<open>networks\<close> and \<^verbatim>\<open>ex_security_groups\<close> are
  keys of \<^verbatim>\<open>create_args\<close> only when the value is truthy.
\<close>

record create_args =
  arg_name :: string
  arg_size :: node_size
  arg_image :: image
  arg_userdata :: string
  arg_networks :: "string list option"
  arg_security_groups :: "security_group list option"

text \<open>
  One constructor for each call that leaves the process: the methods of the libcloud
  driver, the DNS update request and the remote shell.
\<close>

datatype call =
    ListNodes
  | ListVolumes
  | CreateNode create_args
  | WaitUntilRunning "cloud_node option list"
  | CreateVolume int string
  | AttachVolume "cloud_node option" volume
  | DetachVolume volume
  | DestroyVolume volume
  | DestroyNode cloud_node
  | NsUpdate string string
  | RemoteConnect
  | RemoteRun string

text \<open>
  The backend is opaque: what a call returns or raises may depend on every call made
  before it. Each method is a function of that history, so that a theorem about all
  values of this record is a theorem about every deterministic backend, failing where
  and how it likes.
\<close>

record cloud =
  list_nodes :: "call list \<Rightarrow> exc + cloud_node list"
  list_volumes :: "call list \<Rightarrow> exc + volume list"
  create_node :: "create_args \<Rightarrow> call list \<Rightarrow> exc + cloud_node"
  wait_until_running :: "cloud_node option list \<Rightarrow> call list \<Rightarrow> exc + (cloud_node \<times> string list) list"
  create_volume :: "int \<Rightarrow> string \<Rightarrow> call list \<Rightarrow> exc + volume"
  attach_volume :: "cloud_node option \<Rightarrow> volume \<Rightarrow> call list \<Rightarrow> exc + bool"
  detach_volume :: "volume \<Rightarrow> call list \<Rightarrow> exc + bool"
  destroy_volume :: "volume \<Rightarrow> call list \<Rightarrow> exc + bool"
  destroy_node :: "cloud_node \<Rightarrow> call list \<Rightarrow> exc + bool"
  nsupdate :: "string \<Rightarrow> string \<Rightarrow> call list \<Rightarrow> exc + unit"
  remote_connect :: "call list \<Rightarrow> exc + unit"
  remote_run :: "string \<Rightarrow> call list \<Rightarrow> exc + unit"

text \<open>
  What a provisioner is constructed with and never changes: its name, the requested
  system, the effective configuration, the user data, and the provider's catalogs and
  configured security group names, taken as fetched.
\<close>

record provisioner =
  name :: string
  os_type :: "string option"
  os_version :: "string option"
  conf :: sizing
  userdata :: string
  images :: "image list"
  sizes :: "node_size list"
  networks :: "string list"
  provider_security_groups :: "security_group list"
  group_names :: "string list option"

text \<open>
  What changes while the provisioner runs: the attribute \<^verbatim>\<open>_node\<close> (\<open>None\<close> while the
  object has no such attribute), the attribute \<^verbatim>\<open>ips\<close>, and the calls made so far.
\<close>

record session =
  node_cache :: "cloud_node option"
  ips :: "string list"
  calls :: "call list"

text \<open>
  One invocation of a driver method: the backend answers from the history, the call is
  recorded. A bound method of the driver has the attribute \<^verbatim>\<open>__name__\<close>, the name of the
  method, which \<open>retry\<close> is given with it.
\<close>

definition invoke :: "call \<Rightarrow> (call list \<Rightarrow> exc + 'a) \<Rightarrow> session \<Rightarrow> (exc + 'a) \<times> session" where
  "invoke c method s = (method (calls s), s\<lparr>calls := calls s @ [c]\<rparr>)"

subsection \<open>Node lookup\<close>

text \<open>
  The \<^verbatim>\<open>node\<close> property. The \<^verbatim>\<open>for node in nodes\<close> loop leaves in its first round by
  \<^verbatim>\<open>return\<close>, \<^verbatim>\<open>break\<close> or \<^verbatim>\<open>raise\<close>; over an empty list its body never runs and
  \<^verbatim>\<open>return self._node\<close> reads an attribute that was never set.
\<close>

definition node_property :: "cloud \<Rightarrow> provisioner \<Rightarrow> session \<Rightarrow> (exc + cloud_node option) \<times> session" where
  "node_property d p s =
     (case node_cache s of
        Some n \<Rightarrow> (Inr (Some n), s)
      | None \<Rightarrow>
          (case retry (Some ''list_nodes'') (invoke ListNodes (list_nodes d)) s of
             (Inl e, s1) \<Rightarrow> (Inl e, s1)
           | (Inr nodes, s1) \<Rightarrow>
               (case nodes of
                  [] \<Rightarrow> (Inl AttributeError, s1)
                | first # others \<Rightarrow>
                    (case filter (\<lambda>node. node_name node = name p) nodes of
                       [] \<Rightarrow> (Inr None, s1)
                     | [m] \<Rightarrow> (Inr (Some m), s1\<lparr>node_cache := Some m\<rparr>)
                     | m # m' # ms \<Rightarrow>
                         (Inl (RuntimeError
                            [''More than one node found with name '' @ quoted (name p)]), s1)))))"

subsection \<open>Volumes\<close>

text \<open>Decimal numerals as \<^verbatim>\<open>str\<close> prints them, and \<^verbatim>\<open>%0Nd\<close> of a number that is not negative.\<close>

fun str_nat :: "nat \<Rightarrow> string" where
  "str_nat n = (if n < 10 then [''0123456789'' ! n]
                else str_nat (n div 10) @ [''0123456789'' ! (n mod 10)])"

definition str_int :: "int \<Rightarrow> string" where
  "str_int i = (if i < 0 then ''-'' @ str_nat (nat (- i)) else str_nat (nat i))"

definition zero_pad :: "nat \<Rightarrow> nat \<Rightarrow> string" where
  "zero_pad width i = replicate (width - length (str_nat i)) (CHR ''0'') @ str_nat i"

text \<open>
  \<^verbatim>\<open>vol_names\<close> of \<^verbatim>\<open>_create_volumes\<close>: the template is \<^verbatim>\<open>"%s_%0{0}d"\<close> with the field
  width \<^verbatim>\<open>len(str(vol_count - 1))\<close>, applied to the name and each \<^verbatim>\<open>i\<close> of
  \<^verbatim>\<open>range(vol_count)\<close>, which is empty for a count below one.
\<close>

definition vol_names :: "string \<Rightarrow> int \<Rightarrow> string list" where
  "vol_names node_name' vol_count =
     map (\<lambda>i. node_name' @ ''_'' @ zero_pad (length (str_int (vol_count - 1))) i)
         [0..<nat vol_count]"

text \<open>
  The \<^verbatim>\<open>for name in vol_names\<close> loop inside the \<^verbatim>\<open>try\<close>: \<open>Inl\<close> is the exception that
  leaves the loop. \<^verbatim>\<open>self.node\<close> is evaluated for each attachment.
\<close>

fun create_volumes_loop :: "cloud \<Rightarrow> provisioner \<Rightarrow> string list \<Rightarrow> session \<Rightarrow> (exc + unit) \<times> session" where
  "create_volumes_loop d p [] s = (Inr (), s)"
| "create_volumes_loop d p (vname # vnames) s =
     (let vol_size = volumes_size (conf p) in
      case retry (Some ''create_volume'') (invoke (CreateVolume vol_size vname) (create_volume d vol_size vname)) s of
        (Inl e, s1) \<Rightarrow> (Inl e, s1)
      | (Inr vol, s1) \<Rightarrow>
          (case node_property d p s1 of
             (Inl e, s2) \<Rightarrow> (Inl e, s2)
           | (Inr node, s2) \<Rightarrow>
               (case retry (Some ''attach_volume'') (invoke (AttachVolume node vol) (attach_volume d node vol)) s2 of
                  (Inl e, s3) \<Rightarrow> (Inl e, s3)
                | (Inr attached, s3) \<Rightarrow> create_volumes_loop d p vnames s3)))"

text \<open>\<^verbatim>\<open>_create_volumes\<close>: \<^verbatim>\<open>except Exception\<close> turns every exception of the loop into \<^verbatim>\<open>False\<close>.\<close>

definition create_volumes :: "cloud \<Rightarrow> provisioner \<Rightarrow> session \<Rightarrow> bool \<times> session" where
  "create_volumes d p s =
     (case create_volumes_loop d p (vol_names (name p) (volumes_count (conf p))) s of
        (Inl e, s') \<Rightarrow> (False, s')
      | (Inr u, s') \<Rightarrow> (True, s'))"

definition our_volumes :: "string \<Rightarrow> volume list \<Rightarrow> volume list" where
  "our_volumes node_name' all_volumes =
     filter (\<lambda>vol. prefix (node_name' @ ''_'') (volume_name vol)) all_volumes"

text \<open>
  The \<^verbatim>\<open>for vol in our_volumes\<close> loop of \<^verbatim>\<open>_destroy_volumes\<close>: each of the two calls sits in
  a \<^verbatim>\<open>try\<close> of its own whose \<^verbatim>\<open>except Exception\<close> only logs.
\<close>

fun destroy_volumes_loop :: "cloud \<Rightarrow> volume list \<Rightarrow> session \<Rightarrow> session" where
  "destroy_volumes_loop d [] s = s"
| "destroy_volumes_loop d (vol # vols) s =
     (let s1 = (case retry (Some ''detach_volume'') (invoke (DetachVolume vol) (detach_volume d vol)) s of
                  (Inl e, s') \<Rightarrow> s'
                | (Inr r, s') \<Rightarrow> s');
          s2 = (case retry (Some ''destroy_volume'') (invoke (DestroyVolume vol) (destroy_volume d vol)) s1 of
                  (Inl e, s') \<Rightarrow> s'
                | (Inr r, s') \<Rightarrow> s')
      in destroy_volumes_loop d vols s2)"

definition destroy_volumes :: "cloud \<Rightarrow> provisioner \<Rightarrow> session \<Rightarrow> (exc + unit) \<times> session" where
  "destroy_volumes d p s =
     (case retry (Some ''list_volumes'') (invoke ListVolumes (list_volumes d)) s of
        (Inl e, s1) \<Rightarrow> (Inl e, s1)
      | (Inr all_volumes, s1) \<Rightarrow>
          (Inr (), destroy_volumes_loop d (our_volumes (name p) all_volumes) s1))"

subsection \<open>Creation and destruction\<close>

text \<open>
  \<^verbatim>\<open>_update_dns\<close>: \<^verbatim>\<open>self.ips[0]\<close> raises on an empty list; the request and its
  \<^verbatim>\<open>raise_for_status\<close> are one call of the backend.
\<close>

definition update_dns :: "cloud \<Rightarrow> provisioner \<Rightarrow> session \<Rightarrow> (exc + unit) \<times> session" where
  "update_dns d p s =
     (case ips s of
        [] \<Rightarrow> (Inl IndexError, s)
      | ip # rest \<Rightarrow> invoke (NsUpdate (name p) ip) (nsupdate d (name p) ip) s)"

text \<open>
  The polling loop of \<^verbatim>\<open>_wait_for_ready\<close> under \<^verbatim>\<open>safe_while(sleep=6, tries=20)\<close>, entered
  after \<open>counter\<close> rounds: a connection ends it, the three connection errors start the
  next round.
\<close>

function connect_from :: "nat \<Rightarrow> cloud \<Rightarrow> session \<Rightarrow> (exc + unit) \<times> session" where
  "connect_from counter d s =
     (case proceed 20 counter of
        Inl e \<Rightarrow> (Inl e, s)
      | Inr go \<Rightarrow>
          (case invoke RemoteConnect (remote_connect d) s of
             (Inr u, s') \<Rightarrow> (Inr (), s')
           | (Inl e, s') \<Rightarrow>
               if e \<in> set [SocketError, NoValidConnectionsError, AuthenticationException]
               then connect_from (counter + 1) d s'
               else (Inl e, s')))"
  by pat_completeness auto
termination
  by (relation "measure (\<lambda>(counter, d, s). 20 - counter)")
     (auto simp: proceed_def split: if_splits)

definition sentinel_cmd :: string where
  "sentinel_cmd = ''while [ ! -e '' @ quoted ''/.teuth_provisioned'' @ '' ]; do sleep 5; done''"

definition wait_for_ready :: "cloud \<Rightarrow> session \<Rightarrow> (exc + unit) \<times> session" where
  "wait_for_ready d s =
     (case connect_from 0 d s of
        (Inl e, s1) \<Rightarrow> (Inl e, s1)
      | (Inr u, s1) \<Rightarrow> invoke (RemoteRun sentinel_cmd) (remote_run d sentinel_cmd) s1)"

text \<open>What \<^verbatim>\<open>_create\<close> returns: the value \<^verbatim>\<open>False\<close>, or the value of \<^verbatim>\<open>self.node\<close>.\<close>

datatype create_result = ReturnFalse | ReturnNode "cloud_node option"

text \<open>
  \<^verbatim>\<open>create_args\<close> as \<^verbatim>\<open>_create\<close> fills it: the two optional keys are set only for a
  value that is truthy, so not for \<^verbatim>\<open>None\<close> and not for an empty list.
\<close>

definition create_args_for :: "provisioner \<Rightarrow> node_size \<Rightarrow> image \<Rightarrow> security_group list option \<Rightarrow> create_args" where
  "create_args_for p size' image' groups =
     \<lparr>arg_name = name p, arg_size = size', arg_image = image',
      arg_userdata = userdata p,
      arg_networks = (if networks p = [] then None else Some (networks p)),
      arg_security_groups =
        (case groups of None \<Rightarrow> None | Some [] \<Rightarrow> None | Some (g # gs) \<Rightarrow> Some (g # gs))\<rparr>"

text \<open>
  The first part of \<^verbatim>\<open>_create\<close>, up to the message that the node has started. The
  properties \<^verbatim>\<open>size\<close>, \<^verbatim>\<open>image\<close> and \<^verbatim>\<open>security_groups\<close> are evaluated in this order;
  \<^verbatim>\<open>self.node\<close> is evaluated through \<open>node_property\<close> wherever its value is used (inside
  a logging call it follows an evaluation that has filled the cache).
\<close>

definition start_node :: "cloud \<Rightarrow> provisioner \<Rightarrow> session \<Rightarrow> (exc + unit) \<times> session" where
  "start_node d p s =
     (case size_property (conf p) (sizes p) of
        Inl e \<Rightarrow> (Inl e, s)
      | Inr size' \<Rightarrow>
     (case image_property (images p) (os_type p) (os_version p) of
        Inl e \<Rightarrow> (Inl e, s)
      | Inr image' \<Rightarrow>
     (case security_groups (group_names p) (provider_security_groups p) of
        Inl e \<Rightarrow> (Inl e, s)
      | Inr groups \<Rightarrow>
     (let args = create_args_for p size' image' groups
      in case retry (Some ''create_node'') (invoke (CreateNode args) (create_node d args)) s of
        (Inl e, s1) \<Rightarrow> (Inl e, s1)
      | (Inr created, s1) \<Rightarrow>
     (case node_property d p (s1\<lparr>node_cache := Some created\<rparr>) of
        (Inl e, s2) \<Rightarrow> (Inl e, s2)
      | (Inr node, s2) \<Rightarrow>
     (case retry (Some ''wait_until_running'') (invoke (WaitUntilRunning [node]) (wait_until_running d [node])) s2 of
        (Inl e, s3) \<Rightarrow> (Inl e, s3)
      | (Inr results, s3) \<Rightarrow>
     (case results of
        [] \<Rightarrow> (Inl IndexError, s3)
      | (running, addresses) # rest \<Rightarrow>
          (Inr (), s3\<lparr>node_cache := Some running, ips := addresses\<rparr>))))))))"

text \<open>
  \<^verbatim>\<open>_create\<close>: after the node has started, the volumes, with the sweep and \<^verbatim>\<open>False\<close>
  when they fail, then the DNS update and the wait for the node. The 20 seconds of sleep
  take time only.
\<close>

definition create :: "cloud \<Rightarrow> provisioner \<Rightarrow> session \<Rightarrow> (exc + create_result) \<times> session" where
  "create d p s =
     (case start_node d p s of
        (Inl e, s3) \<Rightarrow> (Inl e, s3)
      | (Inr u, s3) \<Rightarrow>
     (case create_volumes d p s3 of
        (ok, s4) \<Rightarrow>
          if \<not> ok then
            (case destroy_volumes d p s4 of
               (Inl e, s5) \<Rightarrow> (Inl e, s5)
             | (Inr u, s5) \<Rightarrow> (Inr ReturnFalse, s5))
          else
            (case update_dns d p s4 of
               (Inl e, s5) \<Rightarrow> (Inl e, s5)
             | (Inr u, s5) \<Rightarrow>
            (case wait_for_ready d s5 of
               (Inl e, s6) \<Rightarrow> (Inl e, s6)
             | (Inr u, s6) \<Rightarrow>
            (case node_property d p s6 of
               (Inl e, s7) \<Rightarrow> (Inl e, s7)
             | (Inr node, s7) \<Rightarrow> (Inr (ReturnNode node), s7))))))"

text \<open>
  \<^verbatim>\<open>_destroy\<close>. \<^verbatim>\<open>node.destroy()\<close> is the driver's \<^verbatim>\<open>destroy_node\<close> for this node and is not
  wrapped in \<^verbatim>\<open>retry\<close>; on \<^verbatim>\<open>None\<close> the attribute access raises.
\<close>

definition destroy :: "cloud \<Rightarrow> provisioner \<Rightarrow> session \<Rightarrow> (exc + bool) \<times> session" where
  "destroy d p s =
     (case node_property d p s of
        (Inl e, s1) \<Rightarrow> (Inl e, s1)
      | (Inr None, s1) \<Rightarrow> (Inr True, s1)
      | (Inr (Some found), s1) \<Rightarrow>
          (case destroy_volumes d p s1 of
             (Inl e, s2) \<Rightarrow> (Inl e, s2)
           | (Inr u, s2) \<Rightarrow>
               (case node_property d p s2 of
                  (Inl e, s3) \<Rightarrow> (Inl e, s3)
                | (Inr None, s3) \<Rightarrow> (Inl AttributeError, s3)
                | (Inr (Some node), s3) \<Rightarrow> invoke (DestroyNode node) (destroy_node d node) s3)))"

subsection \<open>Reading the record of calls\<close>

text \<open>
  \<open>attempts c xs\<close>: the calls \<open>xs\<close> are what one \<^verbatim>\<open>retry\<close> of the call \<open>c\<close> leaves behind, at
  least one and at most 24 invocations of \<open>c\<close>. \<open>swept vols tr\<close>: the calls \<open>tr\<close> are, for
  each volume of \<open>vols\<close> in order, the attempts to detach it followed by the attempts to
  destroy it, and nothing else.
\<close>

definition attempts :: "call \<Rightarrow> call list \<Rightarrow> bool" where
  "attempts c xs = (xs \<noteq> [] \<and> length xs \<le> 24 \<and> list_all (\<lambda>x. x = c) xs)"

fun swept :: "volume list \<Rightarrow> call list \<Rightarrow> bool" where
  "swept [] tr = (tr = [])"
| "swept (vol # vols) tr =
     (let detaching = takeWhile (\<lambda>c. c = DetachVolume vol) tr;
          rest = dropWhile (\<lambda>c. c = DetachVolume vol) tr;
          destroying = takeWhile (\<lambda>c. c = DestroyVolume vol) rest;
          rest' = dropWhile (\<lambda>c. c = DestroyVolume vol) rest
      in attempts (DetachVolume vol) detaching \<and> attempts (DestroyVolume vol) destroying
         \<and> swept vols rest')"

section \<open>The configuration resolver\<close>

text \<open>
  A configuration value as YAML gives it: a number, a string, a list or a mapping from
  strings to values. A mapping is kept as an association list, read with \<^const>\<open>map_of\<close>
  and written with \<^const>\<open>AList.update\<close>; a Python \<^verbatim>\<open>dict\<close> holds each key once.
\<close>

datatype cval = Num int | Str string | Lst "cval list" | Dict "(string \<times> cval) list"

text \<open>
  Modelled from the spec: \<^verbatim>\<open>util.combine_dicts\<close> (\<^verbatim>\<open>teuthology/provision/cloud/util.py\<close>)
  is not part of the sources. The spec folds the sources left to right, the first being
  the one of highest precedence: a key that the result does not have yet is added with
  its value; at a key both have, two mappings are merged key by key, of two numbers the
  maximum is kept, two lists are concatenated, and otherwise the value of the earlier
  source stays (the spec leaves open what two values of different kinds give; the
  earlier one is kept there too). \<^verbatim>\<open>_read_conf\<close> hands the helper the comparison
  \<^verbatim>\<open>lambda x, y: x > y\<close>: the number of the later source replaces the one kept so far
  when \<open>func\<close> says so, which for that comparison is the maximum.
\<close>

fun selective_update :: "(int \<Rightarrow> int \<Rightarrow> bool) \<Rightarrow> (string \<times> cval) list \<Rightarrow> (string \<times> cval) list \<Rightarrow> (string \<times> cval) list"
  and merge_value :: "(int \<Rightarrow> int \<Rightarrow> bool) \<Rightarrow> cval \<Rightarrow> cval \<Rightarrow> cval" where
  "selective_update func a [] = a"
| "selective_update func a ((key, v) # b) =
     selective_update func
       (case map_of a key of
          None \<Rightarrow> AList.update key v a
        | Some old \<Rightarrow> AList.update key (merge_value func old v) a) b"
| "merge_value func (Num x) (Num y) = (if func y x then Num y else Num x)"
| "merge_value func (Lst xs) (Lst ys) = Lst (xs @ ys)"
| "merge_value func (Dict a) (Dict b) = Dict (selective_update func a b)"
| "merge_value func old new = old"

definition combine_dicts :: "(string \<times> cval) list list \<Rightarrow> (int \<Rightarrow> int \<Rightarrow> bool) \<Rightarrow> (string \<times> cval) list" where
  "combine_dicts list_of_dicts func = foldl (selective_update func) [] list_of_dicts"

text \<open>The class attribute \<^verbatim>\<open>OpenStackProvisioner.defaults\<close>.\<close>

definition defaults :: "(string \<times> cval) list" where
  "defaults =
     [(''openstack'', Dict
        [(''machine'', Dict [(''disk'', Num 20), (''ram'', Num 8000), (''cpus'', Num 1)]),
         (''volumes'', Dict [(''count'', Num 0), (''size'', Num 0)])])]"

text \<open>Python's truth value, and \<^verbatim>\<open>x or dict()\<close> for an \<^verbatim>\<open>x\<close> that may be \<^verbatim>\<open>None\<close>.\<close>

fun truthy :: "cval \<Rightarrow> bool" where
  "truthy (Num n) = (n \<noteq> 0)"
| "truthy (Str s) = (s \<noteq> [])"
| "truthy (Lst xs) = (xs \<noteq> [])"
| "truthy (Dict d) = (d \<noteq> [])"

definition or_dict :: "cval option \<Rightarrow> cval" where
  "or_dict x = (case x of None \<Rightarrow> Dict [] | Some c \<Rightarrow> if truthy c then c else Dict [])"

text \<open>
  The list \<^verbatim>\<open>confs\<close> that \<^verbatim>\<open>_read_conf\<close> builds from the \<^verbatim>\<open>conf\<close> argument, its section
  for the driver, the section of the global configuration (\<open>legacy\<close>: the value of
  \<^verbatim>\<open>getattr(config, driver_name)\<close>, \<^verbatim>\<open>None\<close> when unset) and the defaults' section: a
  source that is a list contributes its items. \<^verbatim>\<open>full_conf.get\<close> exists on a mapping only.
\<close>

definition read_conf_confs :: "string \<Rightarrow> cval option \<Rightarrow> cval option \<Rightarrow> exc + cval list" where
  "read_conf_confs driver_name cnf legacy =
     (case or_dict cnf of
        Dict full \<Rightarrow>
          (let full_conf = Dict full;
               driver_conf = (case map_of full driver_name of None \<Rightarrow> Dict [] | Some c \<Rightarrow> c);
               legacy_conf = or_dict legacy;
               defaults' = (case map_of defaults driver_name of None \<Rightarrow> Dict [] | Some c \<Rightarrow> c)
           in Inr (concat (map (\<lambda>obj. case obj of Lst items \<Rightarrow> items | _ \<Rightarrow> [obj])
                               [full_conf, driver_conf, legacy_conf, defaults'])))
      | _ \<Rightarrow> Inl AttributeError)"

text \<open>
  \<^verbatim>\<open>_read_conf\<close>: the value stored as \<^verbatim>\<open>self.conf\<close>. The helper is specified on mappings;
  an item of \<^verbatim>\<open>confs\<close> that is none has no items to merge and is modelled as the
  \<open>AttributeError\<close> of that access.
\<close>

definition as_dict :: "cval \<Rightarrow> (string \<times> cval) list option" where
  "as_dict c = (case c of Dict d \<Rightarrow> Some d | _ \<Rightarrow> None)"

definition read_conf :: "string \<Rightarrow> cval option \<Rightarrow> cval option \<Rightarrow> exc + (string \<times> cval) list" where
  "read_conf driver_name cnf legacy =
     (case read_conf_confs driver_name cnf legacy of
        Inl e \<Rightarrow> Inl e
      | Inr confs \<Rightarrow>
          (case those (map as_dict confs) of
             None \<Rightarrow> Inl AttributeError
           | Some dicts \<Rightarrow> Inr (combine_dicts dicts (\<lambda>x y. x > y))))"

text \<open>
  Reading a configuration at a path of keys: \<open>leaf c path\<close> is the number that \<open>c\<close>
  holds at the path, if it holds one. \<open>numeric_at c path\<close> says that \<open>c\<close> is shaped for a
  number at the path: as far as \<open>c\<close> defines the keys of the path, they lead through
  mappings, with each key once, to a number.
\<close>

fun leaf :: "cval \<Rightarrow> string list \<Rightarrow> int option" where
  "leaf (Num n) [] = Some n"
| "leaf (Dict d) (key # path) = (case map_of d key of None \<Rightarrow> None | Some c \<Rightarrow> leaf c path)"
| "leaf c path = None"

fun numeric_at :: "cval \<Rightarrow> string list \<Rightarrow> bool" where
  "numeric_at (Num n) [] = True"
| "numeric_at (Dict d) (key # path) =
     (distinct (map fst d) \<and> (case map_of d key of None \<Rightarrow> True | Some c \<Rightarrow> numeric_at c path))"
| "numeric_at c path = False"

text \<open>The larger of two numbers of which either may be missing.\<close>

definition larger :: "int option \<Rightarrow> int option \<Rightarrow> int option" where
  "larger x y =
     (case x of
        None \<Rightarrow> y
      | Some a \<Rightarrow> (case y of None \<Rightarrow> Some a | Some b \<Rightarrow> Some (max a b)))"

section \<open>Example inputs\<close>

text \<open>
  An operation that is rate-limited as many times as its state says and then returns,
  and one that fails with an error of another kind.
\<close>

definition flaky :: "nat \<Rightarrow> (exc + string) \<times> nat" where
  "flaky k = (if k = 0 then (Inr ''ok'', 0) else (Inl RateLimitReachedError, k - 1))"

definition broken :: "nat \<Rightarrow> (exc + string) \<times> nat" where
  "broken k = (Inl (OtherError ''boom''), Suc k)"

text \<open>The size catalog and the request of the specification's example, and a request no size meets.\<close>

definition size_A :: node_size where
  "size_A = \<lparr>size_name = ''A'', ram = 4, disk = 10, vcpus = 1\<rparr>"

definition size_B :: node_size where
  "size_B = \<lparr>size_name = ''B'', ram = 8, disk = 20, vcpus = 2\<rparr>"

definition size_C :: node_size where
  "size_C = \<lparr>size_name = ''C'', ram = 8, disk = 40, vcpus = 2\<rparr>"

definition request_8_20_2 :: sizing where
  "request_8_20_2 = \<lparr>machine_ram = 8, machine_disk = 20, machine_cpus = 2, volumes_count = 3, volumes_size = 10\<rparr>"

definition request_64 :: sizing where
  "request_64 = \<lparr>machine_ram = 64, machine_disk = 20, machine_cpus = 2, volumes_count = 0, volumes_size = 0\<rparr>"

text \<open>Security groups: one named \<open>web\<close>, a second of the same name, and one named \<open>db\<close>.\<close>

definition web_group :: security_group where
  "web_group = \<lparr>group_name = ''web'', group_id = 1\<rparr>"

definition web_twin :: security_group where
  "web_twin = \<lparr>group_name = ''web'', group_id = 2\<rparr>"

definition db_group :: security_group where
  "db_group = \<lparr>group_name = ''db'', group_id = 3\<rparr>"

text \<open>The image catalog of the specification's example.\<close>

definition ubuntu_image :: image where
  "ubuntu_image = \<lparr>image_name = ''Ubuntu 18.04 server'', image_id = 1\<rparr>"

definition centos_image :: image where
  "centos_image = \<lparr>image_name = ''centos-7'', image_id = 2\<rparr>"

text \<open>
  A provisioner for the node \<open>node1\<close> with three volumes, a session that has done nothing
  yet, and a backend on which every call succeeds and nothing is listed.
\<close>

definition node1_provisioner :: provisioner where
  "node1_provisioner =
     \<lparr>name = ''node1'', os_type = Some ''ubuntu'', os_version = Some ''18.04'',
      conf = request_8_20_2, userdata = ''#cloud-config'',
      images = [ubuntu_image, centos_image], sizes = [size_A, size_C, size_B],
      networks = [], provider_security_groups = [web_group, db_group],
      group_names = Some [''web'']\<rparr>"

definition fresh :: session where
  "fresh = \<lparr>node_cache = None, ips = [], calls = []\<rparr>"

definition quiet_cloud :: cloud where
  "quiet_cloud =
     \<lparr>list_nodes = (\<lambda>h. Inr []),
      list_volumes = (\<lambda>h. Inr []),
      create_node = (\<lambda>a h. Inr \<lparr>node_name = arg_name a, node_id = 1\<rparr>),
      wait_until_running =
        (\<lambda>ns h. Inr (List.map_filter (map_option (\<lambda>n. (n, [''10.0.0.1'']))) ns)),
      create_volume = (\<lambda>sz n h. Inr \<lparr>volume_name = n, volume_id = length h\<rparr>),
      attach_volume = (\<lambda>n v h. Inr True),
      detach_volume = (\<lambda>v h. Inr True),
      destroy_volume = (\<lambda>v h. Inr True),
      destroy_node = (\<lambda>n h. Inr True),
      nsupdate = (\<lambda>n ip h. Inr ()),
      remote_connect = (\<lambda>h. Inr ()),
      remote_run = (\<lambda>c h. Inr ())\<rparr>"

text \<open>
  Two volumes of \<open>node1\<close> and one of the node \<open>node10\<close>, and a backend that lists the
  three, refuses every detachment, refuses to destroy the first volume and is
  rate-limited on the first attempt to destroy any other.
\<close>

definition vol_0 :: volume where
  "vol_0 = \<lparr>volume_name = ''node1_0'', volume_id = 1\<rparr>"

definition vol_1 :: volume where
  "vol_1 = \<lparr>volume_name = ''node1_1'', volume_id = 2\<rparr>"

definition vol_foreign :: volume where
  "vol_foreign = \<lparr>volume_name = ''node10_0'', volume_id = 3\<rparr>"

definition stubborn_cloud :: cloud where
  "stubborn_cloud = quiet_cloud
     \<lparr>list_volumes := (\<lambda>h. Inr [vol_0, vol_foreign, vol_1]),
      detach_volume := (\<lambda>v h. Inl (OtherError ''not attached'')),
      destroy_volume := (\<lambda>v h.
        if v = vol_0 then Inl (OtherError ''in use'')
        else if h \<noteq> [] \<and> last h = DestroyVolume v then Inr True
        else Inl RateLimitReachedError)\<rparr>"

text \<open>
  The node \<open>node1\<close>, a second node of the same name and a node \<open>node2\<close>; backends whose
  node catalog holds only \<open>node2\<close>, or \<open>node2\<close> and \<open>node1\<close> together with the three
  volumes, or both nodes named \<open>node1\<close>.
\<close>

definition node1 :: cloud_node where
  "node1 = \<lparr>node_name = ''node1'', node_id = 1\<rparr>"

definition node1_twin :: cloud_node where
  "node1_twin = \<lparr>node_name = ''node1'', node_id = 7\<rparr>"

definition node2 :: cloud_node where
  "node2 = \<lparr>node_name = ''node2'', node_id = 2\<rparr>"

definition other_cloud :: cloud where
  "other_cloud = quiet_cloud\<lparr>list_nodes := (\<lambda>h. Inr [node2])\<rparr>"

definition one_cloud :: cloud where
  "one_cloud = quiet_cloud
     \<lparr>list_nodes := (\<lambda>h. Inr [node2, node1]),
      list_volumes := (\<lambda>h. Inr [vol_0, vol_foreign, vol_1])\<rparr>"

definition twin_cloud :: cloud where
  "twin_cloud = quiet_cloud
     \<lparr>list_nodes := (\<lambda>h. Inr [node1, node2, node1_twin]),
      list_volumes := (\<lambda>h. Inr [vol_0, vol_foreign, vol_1])\<rparr>"

text \<open>
  A backend that refuses to create the second of the three volumes of \<open>node1\<close>, lists the
  first volume and a foreign one, and refuses every detachment; and the session as it is
  when \<open>node1\<close> has started on it.
\<close>

definition failing_cloud :: cloud where
  "failing_cloud = quiet_cloud
     \<lparr>create_volume := (\<lambda>sz n h.
        if n = ''node1_1'' then Inl (OtherError ''quota'')
        else Inr \<lparr>volume_name = n, volume_id = 1\<rparr>),
      list_volumes := (\<lambda>h. Inr [vol_0, vol_foreign]),
      detach_volume := (\<lambda>v h. Inl (OtherError ''busy''))\<rparr>"

definition started :: session where
  "started =
     \<lparr>node_cache = Some node1, ips = [''10.0.0.1''],
      calls = [CreateNode (create_args_for node1_provisioner size_B ubuntu_image (Some [web_group])),
               WaitUntilRunning [Some node1]]\<rparr>"

text \<open>
  A per-call configuration with a section for the driver, and a section of the global
  configuration.
\<close>

definition example_conf :: cval where
  "example_conf = Dict
     [(''openstack'', Dict [(''machine'', Dict [(''ram'', Num 16000)])]),
      (''machine'', Dict [(''ram'', Num 1)])]"

definition example_legacy :: cval where
  "example_legacy = Dict [(''machine'', Dict [(''disk'', Num 40), (''ram'', Num 9000)])]"

definition example_section :: cval where
  "example_section = Dict [(''machine'', Dict [(''ram'', Num 16000)])]"

definition openstack_defaults :: cval where
  "openstack_defaults = Dict
     [(''machine'', Dict [(''disk'', Num 20), (''ram'', Num 8000), (''cpus'', Num 1)]),
      (''volumes'', Dict [(''count'', Num 0), (''size'', Num 0)])]"

text \<open>The same backend when it also refuses to list the volumes.\<close>

definition unlisted_cloud :: cloud where
  "unlisted_cloud = failing_cloud\<lparr>list_volumes := (\<lambda>h. Inl (OtherError ''forbidden''))\<rparr>"

section \<open>The retry wrapper: attempts and propagation\<close>

declare retry_from.simps [simp del]

declare connect_from.simps [simp del]

lemma state_after_Suc: "state_after f s (Suc i) = snd (f (state_after f s i))"
  by (simp add: state_after_def)

lemma state_after_0: "state_after f s 0 = s"
  by (simp add: state_after_def)

lemma state_after_shift: "state_after f (snd (f s)) i = state_after f s (Suc i)"
  unfolding state_after_def by (simp only: funpow_Suc_right o_apply)

lemma retry_from_round:
  assumes "tries < 24"
  shows "retry_from tries fn (counting f) (n, s) =
     (case after_call (tries + 1) fn (fst (f s)) of
        Inr result \<Rightarrow> (Inr result, (Suc n, snd (f s)))
      | Inl e \<Rightarrow>
          if e \<in> set RETRY_EXCEPTIONS
          then retry_from (tries + 1) fn (counting f) (Suc n, snd (f s))
          else (Inl e, (Suc n, snd (f s))))"
proof (cases "f s")
  case (Pair r t)
  then have "counting f (n, s) = (r, (Suc n, t))"
    by (simp add: counting_def)
  then show ?thesis
    using assms Pair by (subst retry_from.simps) (simp add: proceed_def split: sum.splits)
qed

lemma retry_from_transient:
  assumes "tries < 24" and "fst (f s) = Inl e" and "e \<in> set RETRY_EXCEPTIONS"
  shows "retry_from tries fn (counting f) (n, s) =
         retry_from (tries + 1) fn (counting f) (Suc n, snd (f s))"
  using assms by (simp add: retry_from_round after_call_def)

lemma retry_from_return:
  assumes "tries < 24" and "fst (f s) = Inr v"
  shows "retry_from tries (Some nm) (counting f) (n, s) = (Inr v, (Suc n, snd (f s)))"
  using assms by (simp add: retry_from_round after_call_def)

lemma retry_from_first_return:
  assumes "fst (f s) = Inr v"
  shows "retry_from 0 fn (counting f) (n, s) = (Inr v, (Suc n, snd (f s)))"
  using assms by (simp add: retry_from_round after_call_def)

lemma retry_from_nameless:
  assumes "0 < tries" and "tries < 24" and "fst (f s) = Inr v"
  shows "retry_from tries None (counting f) (n, s) = (Inl AttributeError, (Suc n, snd (f s)))"
  using assms by (simp add: retry_from_round after_call_def RETRY_EXCEPTIONS_def)

lemma retry_from_fatal:
  assumes "tries < 24" and "fst (f s) = Inl e" and "e \<notin> set RETRY_EXCEPTIONS"
  shows "retry_from tries fn (counting f) (n, s) = (Inl e, (Suc n, snd (f s)))"
  using assms by (simp add: retry_from_round after_call_def)

lemma retry_from_skip:
  assumes "tries + N \<le> 24"
    and "\<forall>i<N. fst (f (state_after f s i)) = Inl RateLimitReachedError"
  shows "retry_from tries fn (counting f) (n, s) =
         retry_from (tries + N) fn (counting f) (n + N, state_after f s N)"
  using assms
proof (induction N arbitrary: tries n s)
  case 0
  then show ?case by (simp add: state_after_0)
next
  case (Suc N)
  have first: "fst (f s) = Inl RateLimitReachedError"
    using Suc.prems(2) by (auto simp: state_after_0 dest: spec [of _ 0])
  have rest: "\<forall>i<N. fst (f (state_after f (snd (f s)) i)) = Inl RateLimitReachedError"
    using Suc.prems(2) by (auto simp: state_after_shift)
  have "retry_from tries fn (counting f) (n, s) =
        retry_from (tries + 1) fn (counting f) (Suc n, snd (f s))"
    using Suc.prems(1) first by (intro retry_from_transient) (auto simp: RETRY_EXCEPTIONS_def)
  also have "\<dots> = retry_from (tries + 1 + N) fn (counting f) (Suc n + N, state_after f (snd (f s)) N)"
    using Suc.prems(1) rest by (intro Suc.IH) auto
  finally show ?case by (simp add: state_after_shift)
qed

text \<open>
  A callable without the attribute \<^verbatim>\<open>__name__\<close> that is rate-limited at least once and
  then returns: the debug message raises \<open>AttributeError\<close> inside the \<^verbatim>\<open>try\<close> block, the
  result is lost, and the operation has run \<open>N + 1\<close> times.
\<close>

lemma retry_nameless:
  assumes "1 \<le> N" and "N + 1 \<le> 24"
    and "\<forall>i<N. fst (f (state_after f s i)) = Inl RateLimitReachedError"
    and "fst (f (state_after f s N)) = Inr v"
  shows "retry None (counting f) (0, s) = (Inl AttributeError, (N + 1, state_after f s (N + 1)))"
proof -
  have "retry_from 0 None (counting f) (0, s) =
        retry_from (0 + N) None (counting f) (0 + N, state_after f s N)"
    using assms(2,3) by (intro retry_from_skip) auto
  also have "\<dots> = (Inl AttributeError, (Suc N, snd (f (state_after f s N))))"
    using assms(1,2,4) by (simp add: retry_from_nameless)
  finally show ?thesis by (simp add: retry_def state_after_Suc)
qed

text \<open>
  Claim C3, at a callable without the attribute \<^verbatim>\<open>__name__\<close> (a \<^verbatim>\<open>functools.partial\<close>,
  say) that raises the rate-limit error once and then returns \<open>ok\<close>. The operation is
  invoked twice, as the claim says, but \<open>retry\<close> does not return the result: it raises
  \<open>AttributeError\<close>. The same operation under a name returns \<open>ok\<close>.
\<close>

theorem retry_without_name_loses_result:
  "fst (flaky 1) = Inl RateLimitReachedError
   \<and> flaky (snd (flaky 1)) = (Inr ''ok'', 0)
   \<and> retry None (counting flaky) (0, 1) = (Inl AttributeError, (2, 0))
   \<and> retry (Some ''flaky'') (counting flaky) (0, 1) = (Inr ''ok'', (2, 0))"
  by code_simp

text \<open>
  For a callable that has the attribute \<^verbatim>\<open>__name__\<close>, as every method of the driver
  has. An operation that raises the rate-limit error exactly \<open>N\<close> times, with \<open>N + 1\<close>
  within the budget of 24 attempts, and then returns \<open>v\<close>: \<open>retry\<close> returns \<open>v\<close> and has
  invoked the operation exactly \<open>N + 1\<close> times. An operation whose first invocation
  raises an error outside \<open>RETRY_EXCEPTIONS\<close>, named or not: \<open>retry\<close> propagates that error
  and has invoked the operation exactly once. More generally, an error outside
  \<open>RETRY_EXCEPTIONS\<close> raised after \<open>K\<close> rate-limit errors ends \<open>retry\<close> at that invocation.
\<close>

theorem retry_invocations:
  "(N + 1 \<le> 24 \<and> (\<forall>i<N. fst (f (state_after f s i)) = Inl RateLimitReachedError) \<and>
      fst (f (state_after f s N)) = Inr v
    \<longrightarrow> retry (Some nm) (counting f) (0, s) = (Inr v, (N + 1, state_after f s (N + 1))))
   \<and> (fst (f s) = Inl e \<and> e \<notin> set RETRY_EXCEPTIONS
    \<longrightarrow> retry fn (counting f) (0, s) = (Inl e, (1, snd (f s))))
   \<and> (K + 1 \<le> 24 \<and> (\<forall>i<K. fst (f (state_after f s i)) = Inl RateLimitReachedError) \<and>
      fst (f (state_after f s K)) = Inl e' \<and> e' \<notin> set RETRY_EXCEPTIONS
    \<longrightarrow> retry fn (counting f) (0, s) = (Inl e', (K + 1, state_after f s (K + 1))))"
proof (intro conjI impI)
  assume h: "N + 1 \<le> 24 \<and> (\<forall>i<N. fst (f (state_after f s i)) = Inl RateLimitReachedError) \<and>
      fst (f (state_after f s N)) = Inr v"
  then have "retry_from 0 (Some nm) (counting f) (0, s) =
      retry_from (0 + N) (Some nm) (counting f) (0 + N, state_after f s N)"
    by (intro retry_from_skip) auto
  also have "\<dots> = (Inr v, (Suc N, snd (f (state_after f s N))))"
    using h by (simp add: retry_from_return)
  finally show "retry (Some nm) (counting f) (0, s) = (Inr v, (N + 1, state_after f s (N + 1)))"
    by (simp add: retry_def state_after_Suc)
next
  assume "fst (f s) = Inl e \<and> e \<notin> set RETRY_EXCEPTIONS"
  then show "retry fn (counting f) (0, s) = (Inl e, (1, snd (f s)))"
    by (simp add: retry_def retry_from_fatal)
next
  assume h: "K + 1 \<le> 24 \<and> (\<forall>i<K. fst (f (state_after f s i)) = Inl RateLimitReachedError) \<and>
      fst (f (state_after f s K)) = Inl e' \<and> e' \<notin> set RETRY_EXCEPTIONS"
  then have "retry_from 0 fn (counting f) (0, s) =
      retry_from (0 + K) fn (counting f) (0 + K, state_after f s K)"
    by (intro retry_from_skip) auto
  also have "\<dots> = (Inl e', (Suc K, snd (f (state_after f s K))))"
    using h by (simp add: retry_from_fatal)
  finally show "retry fn (counting f) (0, s) = (Inl e', (K + 1, state_after f s (K + 1)))"
    by (simp add: retry_def state_after_Suc)
qed

lemma state_after_flaky:
  "state_after flaky 2 0 = 2" "state_after flaky 2 1 = 1"
  "state_after flaky 2 2 = 0" "state_after flaky 2 3 = 0"
  by (simp_all add: state_after_def flaky_def eval_nat_numeral)

theorem retry_invocations_witness:
  "fst (flaky (state_after flaky 2 0)) = Inl RateLimitReachedError
   \<and> fst (flaky (state_after flaky 2 1)) = Inl RateLimitReachedError
   \<and> fst (flaky (state_after flaky 2 2)) = Inr ''ok''
   \<and> retry (Some ''flaky'') (counting flaky) (0, 2) = (Inr ''ok'', (3, 0))
   \<and> fst (broken 0) = Inl (OtherError ''boom'')
   \<and> OtherError ''boom'' \<notin> set RETRY_EXCEPTIONS
   \<and> retry None (counting broken) (0, 0) = (Inl (OtherError ''boom''), (1, 1))"
proof -
  have a: "\<forall>i<2. fst (flaky (state_after flaky 2 i)) = Inl RateLimitReachedError"
    by (auto simp: less_Suc_eq eval_nat_numeral state_after_def flaky_def)
  have b: "fst (flaky (state_after flaky 2 2)) = Inr ''ok''"
    by (simp add: state_after_flaky flaky_def)
  have c: "fst (broken 0) = Inl (OtherError ''boom'') \<and> OtherError ''boom'' \<notin> set RETRY_EXCEPTIONS"
    by (simp add: broken_def RETRY_EXCEPTIONS_def)
  from a b retry_invocations [of 2 flaky 2 "''ok''" "''flaky''" _ None 0, THEN conjunct1]
  have d: "retry (Some ''flaky'') (counting flaky) (0, 2) = (Inr ''ok'', (3, 0))"
    by (simp add: state_after_flaky)
  from c retry_invocations [of 0 broken 0 _ _ "OtherError ''boom''" None 0, THEN conjunct2, THEN conjunct1]
  have e: "retry None (counting broken) (0, 0) = (Inl (OtherError ''boom''), (1, 1))"
    by (simp add: broken_def)
  from a b c d e show ?thesis by simp
qed

section \<open>Size selection: the smallest adequate size\<close>

lemma good_size_iff:
  "good_size r k c t \<longleftrightarrow> r \<le> ram t \<and> k \<le> disk t \<and> c \<le> vcpus t"
  by (auto simp: good_size_def)

lemma sort_key_head_least:
  assumes "sort_key f xs = m # rest"
  shows "m \<in> set xs \<and> (\<forall>t\<in>set xs. f m \<le> f t)"
proof -
  have "set (m # rest) = set xs"
    using assms set_sort [of f xs] by simp
  moreover have "sorted (map f (m # rest))"
    using assms sorted_sort_key [of f xs] by simp
  ultimately show ?thesis by auto
qed

lemma sort_key_Nil_iff: "sort_key f xs = [] \<longleftrightarrow> xs = []"
  using length_sort [of f xs] by (metis length_0_conv)

lemma triple_le_iff:
  "((a::int, b::int, c::int) \<le> (a', b', c')) \<longleftrightarrow>
     a < a' \<or> (a = a' \<and> (b < b' \<or> (b = b' \<and> c \<le> c')))"
  by (auto simp: less_eq_prod_def less_prod_def)

lemma size_property_Inl:
  "filter (good_size (machine_ram c) (machine_disk c) (machine_cpus c)) all_sizes = []
   \<Longrightarrow> size_property c all_sizes = Inl IndexError"
  by (simp add: size_property_def)

lemma size_property_Inr:
  assumes "filter (good_size (machine_ram c) (machine_disk c) (machine_cpus c)) all_sizes \<noteq> []"
  shows "\<exists>m. size_property c all_sizes = Inr m
           \<and> m \<in> set (filter (good_size (machine_ram c) (machine_disk c) (machine_cpus c)) all_sizes)
           \<and> (\<forall>t\<in>set (filter (good_size (machine_ram c) (machine_disk c) (machine_cpus c)) all_sizes).
                 (ram m, disk m, vcpus m) \<le> (ram t, disk t, vcpus t))"
proof -
  let ?good = "filter (good_size (machine_ram c) (machine_disk c) (machine_cpus c)) all_sizes"
  let ?key = "\<lambda>s. (ram s, disk s, vcpus s)"
  obtain m rest where sorted: "sort_key ?key ?good = m # rest"
    using assms by (cases "sort_key ?key ?good") (auto simp: sort_key_Nil_iff)
  then have "size_property c all_sizes = Inr m"
    by (simp add: size_property_def)
  moreover have "m \<in> set ?good \<and> (\<forall>t\<in>set ?good. ?key m \<le> ?key t)"
    using sort_key_head_least [OF sorted] .
  ultimately show ?thesis by blast
qed

text \<open>
  Claim C5. The catalog is restricted to the sizes whose RAM, disk and number of virtual
  CPUs are each at least the requested one. When none is left, \<open>size_property\<close> fails
  with \<open>IndexError\<close>, which is no member of \<open>RETRY_EXCEPTIONS\<close>. Otherwise it returns an
  adequate size of the catalog whose triple (RAM, disk, CPUs) is lexicographically least
  among the adequate ones. The failure reaches the caller of \<open>create\<close> as it is, before
  any call to the backend.
\<close>

theorem size_property_smallest:
  "(filter (\<lambda>t. machine_ram c \<le> ram t \<and> machine_disk c \<le> disk t \<and> machine_cpus c \<le> vcpus t)
      all_sizes = []
     \<longrightarrow> size_property c all_sizes = Inl IndexError \<and> IndexError \<notin> set RETRY_EXCEPTIONS)
   \<and> (filter (\<lambda>t. machine_ram c \<le> ram t \<and> machine_disk c \<le> disk t \<and> machine_cpus c \<le> vcpus t)
      all_sizes \<noteq> []
     \<longrightarrow> (\<exists>m. size_property c all_sizes = Inr m \<and> m \<in> set all_sizes
            \<and> machine_ram c \<le> ram m \<and> machine_disk c \<le> disk m \<and> machine_cpus c \<le> vcpus m
            \<and> (\<forall>t\<in>set all_sizes.
                 machine_ram c \<le> ram t \<and> machine_disk c \<le> disk t \<and> machine_cpus c \<le> vcpus t
                 \<longrightarrow> ram m < ram t
                     \<or> (ram m = ram t \<and> (disk m < disk t \<or> (disk m = disk t \<and> vcpus m \<le> vcpus t))))))
   \<and> (size_property (conf p) (sizes p) = Inl IndexError \<longrightarrow> create d p s = (Inl IndexError, s))"
proof -
  have eq: "filter (\<lambda>t. machine_ram c \<le> ram t \<and> machine_disk c \<le> disk t \<and> machine_cpus c \<le> vcpus t) all_sizes
      = filter (good_size (machine_ram c) (machine_disk c) (machine_cpus c)) all_sizes"
    by (rule filter_cong) (simp_all add: good_size_iff)
  show ?thesis
  proof (intro conjI impI)
    assume "filter (\<lambda>t. machine_ram c \<le> ram t \<and> machine_disk c \<le> disk t \<and> machine_cpus c \<le> vcpus t) all_sizes = []"
    then show "size_property c all_sizes = Inl IndexError"
      unfolding eq by (rule size_property_Inl)
  next
    show "IndexError \<notin> set RETRY_EXCEPTIONS" by (simp add: RETRY_EXCEPTIONS_def)
  next
    assume "size_property (conf p) (sizes p) = Inl IndexError"
    then show "create d p s = (Inl IndexError, s)"
      by (simp add: create_def start_node_def)
  next
    assume "filter (\<lambda>t. machine_ram c \<le> ram t \<and> machine_disk c \<le> disk t \<and> machine_cpus c \<le> vcpus t) all_sizes \<noteq> []"
    then obtain m where m: "size_property c all_sizes = Inr m"
      "m \<in> set (filter (good_size (machine_ram c) (machine_disk c) (machine_cpus c)) all_sizes)"
      "\<forall>t\<in>set (filter (good_size (machine_ram c) (machine_disk c) (machine_cpus c)) all_sizes).
                 (ram m, disk m, vcpus m) \<le> (ram t, disk t, vcpus t)"
      unfolding eq using size_property_Inr by blast
    show "\<exists>m. size_property c all_sizes = Inr m \<and> m \<in> set all_sizes
            \<and> machine_ram c \<le> ram m \<and> machine_disk c \<le> disk m \<and> machine_cpus c \<le> vcpus m
            \<and> (\<forall>t\<in>set all_sizes.
                 machine_ram c \<le> ram t \<and> machine_disk c \<le> disk t \<and> machine_cpus c \<le> vcpus t
                 \<longrightarrow> ram m < ram t
                     \<or> (ram m = ram t \<and> (disk m < disk t \<or> (disk m = disk t \<and> vcpus m \<le> vcpus t))))"
    proof (intro exI [of _ m] conjI ballI impI)
      show "size_property c all_sizes = Inr m" by (rule m(1))
      show "m \<in> set all_sizes" using m(2) by simp
      show "machine_ram c \<le> ram m" "machine_disk c \<le> disk m" "machine_cpus c \<le> vcpus m"
        using m(2) by (simp_all add: good_size_iff)
    next
      fix t assume "t \<in> set all_sizes"
        and "machine_ram c \<le> ram t \<and> machine_disk c \<le> disk t \<and> machine_cpus c \<le> vcpus t"
      then have "(ram m, disk m, vcpus m) \<le> (ram t, disk t, vcpus t)"
        using m(3) by (simp add: good_size_iff)
      then show "ram m < ram t
                     \<or> (ram m = ram t \<and> (disk m < disk t \<or> (disk m = disk t \<and> vcpus m \<le> vcpus t)))"
        by (simp only: triple_le_iff)
    qed
  qed
qed

theorem size_property_smallest_witness:
  "size_property request_8_20_2 [size_A, size_C, size_B] = Inr size_B
   \<and> size_property request_64 [size_A, size_C, size_B] = Inl IndexError
   \<and> create quiet_cloud (node1_provisioner\<lparr>conf := request_64\<rparr>) fresh = (Inl IndexError, fresh)"
proof -
  have ne: "filter (\<lambda>t. machine_ram request_8_20_2 \<le> ram t \<and> machine_disk request_8_20_2 \<le> disk t
                \<and> machine_cpus request_8_20_2 \<le> vcpus t) [size_A, size_C, size_B] = [size_C, size_B]"
    by (simp add: request_8_20_2_def size_A_def size_B_def size_C_def)
  have emp: "filter (\<lambda>t. machine_ram request_64 \<le> ram t \<and> machine_disk request_64 \<le> disk t
                \<and> machine_cpus request_64 \<le> vcpus t) [size_A, size_C, size_B] = []"
    by (simp add: request_64_def size_A_def size_B_def size_C_def)
  from size_property_smallest [of request_8_20_2 "[size_A, size_C, size_B]"
      node1_provisioner quiet_cloud fresh, THEN conjunct2, THEN conjunct1] ne
  obtain m where m: "size_property request_8_20_2 [size_A, size_C, size_B] = Inr m"
    "m \<in> set [size_A, size_C, size_B]"
    "machine_ram request_8_20_2 \<le> ram m" 
    "\<forall>t\<in>set [size_A, size_C, size_B].
                 machine_ram request_8_20_2 \<le> ram t \<and> machine_disk request_8_20_2 \<le> disk t \<and> machine_cpus request_8_20_2 \<le> vcpus t
                 \<longrightarrow> ram m < ram t
                     \<or> (ram m = ram t \<and> (disk m < disk t \<or> (disk m = disk t \<and> vcpus m \<le> vcpus t)))"
    by auto
  from m(2,3,4) have "m = size_B"
    by (auto simp: request_8_20_2_def size_A_def size_B_def size_C_def)
  with m(1) have a: "size_property request_8_20_2 [size_A, size_C, size_B] = Inr size_B" by simp
  from size_property_smallest [of request_64 "[size_A, size_C, size_B]"
      node1_provisioner quiet_cloud fresh, THEN conjunct1] emp
  have b: "size_property request_64 [size_A, size_C, size_B] = Inl IndexError" by simp
  have "size_property (conf (node1_provisioner\<lparr>conf := request_64\<rparr>))
          (sizes (node1_provisioner\<lparr>conf := request_64\<rparr>)) = Inl IndexError"
    using b by (simp add: node1_provisioner_def)
  with size_property_smallest [of _ _ "node1_provisioner\<lparr>conf := request_64\<rparr>" quiet_cloud fresh]
  have c: "create quiet_cloud (node1_provisioner\<lparr>conf := request_64\<rparr>) fresh = (Inl IndexError, fresh)"
    by blast
  from a b c show ?thesis by simp
qed

section \<open>Security groups: one match for each name\<close>

lemma security_groups_loop_append:
  assumes "\<forall>n\<in>set before. \<exists>g. filter (\<lambda>gr. group_name gr = n) groups = [g]"
  shows "security_groups_loop groups (before @ rest) acc =
         security_groups_loop groups rest
           (acc @ concat (map (\<lambda>n. filter (\<lambda>gr. group_name gr = n) groups) before))"
  using assms
proof (induction before arbitrary: acc)
  case Nil
  then show ?case by simp
next
  case (Cons n before)
  from Cons.prems obtain g where g: "filter (\<lambda>gr. group_name gr = n) groups = [g]"
    by auto
  have "security_groups_loop groups ((n # before) @ rest) acc =
        security_groups_loop groups (before @ rest) (acc @ [g])"
    using g by simp
  also have "\<dots> = security_groups_loop groups rest
           ((acc @ [g]) @ concat (map (\<lambda>n. filter (\<lambda>gr. group_name gr = n) groups) before))"
    using Cons.prems by (intro Cons.IH) simp
  finally show ?case using g by simp
qed

text \<open>
  Claim C6. With no names configured the result is absent (\<open>None\<close>), not an empty list.
  With a list of names configured (for the empty list the result is the empty list),
  the names are resolved in order against the catalog by exact name: when each has exactly one match, the result is the list of these groups; the
  first name without a match raises the error that no group has this name; the first
  name with more than one match raises the error that the name is ambiguous.
\<close>

theorem security_groups_resolution:
  "security_groups None groups = Inr None
   \<and> ((\<forall>n\<in>set names. \<exists>g. filter (\<lambda>gr. group_name gr = n) groups = [g])
        \<longrightarrow> security_groups (Some names) groups =
            Inr (Some (concat (map (\<lambda>n. filter (\<lambda>gr. group_name gr = n) groups) names))))
   \<and> ((\<forall>n\<in>set before. \<exists>g. filter (\<lambda>gr. group_name gr = n) groups = [g])
        \<and> filter (\<lambda>gr. group_name gr = bad) groups = []
        \<longrightarrow> security_groups (Some (before @ bad # after)) groups =
            Inl (RuntimeError [''No security groups found with name '' @ quoted bad]))
   \<and> ((\<forall>n\<in>set before. \<exists>g. filter (\<lambda>gr. group_name gr = n) groups = [g])
        \<and> 1 < length (filter (\<lambda>gr. group_name gr = bad) groups)
        \<longrightarrow> security_groups (Some (before @ bad # after)) groups =
            Inl (RuntimeError [''More than one security group found with name '' @ quoted bad]))"
proof (intro conjI impI)
  show "security_groups None groups = Inr None"
    by (simp add: security_groups_def)
next
  assume "\<forall>n\<in>set names. \<exists>g. filter (\<lambda>gr. group_name gr = n) groups = [g]"
  then have "security_groups_loop groups (names @ []) [] =
      security_groups_loop groups [] ([] @ concat (map (\<lambda>n. filter (\<lambda>gr. group_name gr = n) groups) names))"
    by (rule security_groups_loop_append)
  then show "security_groups (Some names) groups =
            Inr (Some (concat (map (\<lambda>n. filter (\<lambda>gr. group_name gr = n) groups) names)))"
    by (simp add: security_groups_def)
next
  assume h: "(\<forall>n\<in>set before. \<exists>g. filter (\<lambda>gr. group_name gr = n) groups = [g])
        \<and> filter (\<lambda>gr. group_name gr = bad) groups = []"
  then have "security_groups_loop groups (before @ bad # after) [] =
      security_groups_loop groups (bad # after)
        ([] @ concat (map (\<lambda>n. filter (\<lambda>gr. group_name gr = n) groups) before))"
    by (intro security_groups_loop_append) simp
  with h show "security_groups (Some (before @ bad # after)) groups =
            Inl (RuntimeError [''No security groups found with name '' @ quoted bad])"
    by (simp add: security_groups_def)
next
  assume h: "(\<forall>n\<in>set before. \<exists>g. filter (\<lambda>gr. group_name gr = n) groups = [g])
        \<and> 1 < length (filter (\<lambda>gr. group_name gr = bad) groups)"
  then obtain m m' ms where ms: "filter (\<lambda>gr. group_name gr = bad) groups = m # m' # ms"
    by (cases "filter (\<lambda>gr. group_name gr = bad) groups" rule: remdups_adj.cases) auto
  from h have "security_groups_loop groups (before @ bad # after) [] =
      security_groups_loop groups (bad # after)
        ([] @ concat (map (\<lambda>n. filter (\<lambda>gr. group_name gr = n) groups) before))"
    by (intro security_groups_loop_append) simp
  with ms show "security_groups (Some (before @ bad # after)) groups =
            Inl (RuntimeError [''More than one security group found with name '' @ quoted bad])"
    by (simp add: security_groups_def)
qed

theorem security_groups_resolution_witness:
  "security_groups None [web_group, db_group] = Inr None
   \<and> security_groups (Some []) [web_group, db_group] = Inr (Some [])
   \<and> security_groups (Some [''web'', ''db'']) [web_group, db_group] = Inr (Some [web_group, db_group])
   \<and> security_groups (Some [''web'']) [db_group] =
       Inl (RuntimeError [''No security groups found with name '' @ quoted ''web''])
   \<and> security_groups (Some [''db'', ''web'']) [web_group, db_group, web_twin] =
       Inl (RuntimeError [''More than one security group found with name '' @ quoted ''web''])"
proof -
  have one: "\<forall>n\<in>set [''web'', ''db'']. \<exists>g. filter (\<lambda>gr. group_name gr = n) [web_group, db_group] = [g]"
    by (simp add: web_group_def db_group_def)
  have a: "security_groups (Some [''web'', ''db'']) [web_group, db_group] = Inr (Some [web_group, db_group])"
    using security_groups_resolution [of "[web_group, db_group]" "[''web'', ''db'']"] one
    by (simp add: web_group_def db_group_def)
  have b: "security_groups (Some [''web'']) [db_group] =
       Inl (RuntimeError [''No security groups found with name '' @ quoted ''web''])"
    using security_groups_resolution [of "[db_group]" _ "[]" "''web''" "[]"]
    by (simp add: db_group_def)
  have c: "security_groups (Some [''db'', ''web'']) [web_group, db_group, web_twin] =
       Inl (RuntimeError [''More than one security group found with name '' @ quoted ''web''])"
    using security_groups_resolution [of "[web_group, db_group, web_twin]" _ "[''db'']" "''web''" "[]"]
    by (simp add: web_group_def db_group_def web_twin_def)
  have n: "security_groups None [web_group, db_group] = Inr None"
    using security_groups_resolution [of "[web_group, db_group]"] by blast
  have e: "security_groups (Some []) [web_group, db_group] = Inr (Some [])"
    using security_groups_resolution [of "[web_group, db_group]" "[]"] by simp
  from a b c n e show ?thesis by simp
qed

section \<open>Image selection: two templates against lower-cased names\<close>

lemma format_spec_space: "format_spec ''{os_type} {os_version}'' t v = t @ '' '' @ v"
  by simp

lemma format_spec_dash: "format_spec ''{os_type}-{os_version}'' t v = t @ ''-'' @ v"
  by simp

lemma lower_append: "lower (a @ b) = lower a @ lower b"
  by (simp add: lower_def)

lemma lower_separators: "lower '' '' = '' ''" "lower ''-'' = ''-''"
  by code_simp+

lemma image_property_unfold:
  "image_property imgs t v =
     (case filter (\<lambda>im. sublist (py_str t @ '' '' @ py_str v) (lower (image_name im))) imgs of
        m # ms \<Rightarrow> Inr m
      | [] \<Rightarrow>
         (case filter (\<lambda>im. sublist (py_str t @ ''-'' @ py_str v) (lower (image_name im))) imgs of
            m # ms \<Rightarrow> Inr m
          | [] \<Rightarrow> Inl (RuntimeError [''Could not find an image for %s %s'', py_str t, py_str v])))"
  unfolding image_property_def os_specs_def image_matches.simps format_spec_space format_spec_dash
  by (simp add: Let_def split: list.splits)

text \<open>
  Claim C4, as the code has it. Image selection formats the template \<open>{type} {version}\<close>
  and then \<open>{type}-{version}\<close> with the request as it was given and looks for the result
  as a substring of each catalog name folded to lower case; it returns the first image
  matching the first template with a match, and fails with the error carrying the
  requested type and version when neither template matches. For a request that is in
  lower case already this is the case-insensitive match of the specification.
\<close>

theorem image_property_selection:
  "image_property imgs t v =
     (case filter (\<lambda>im. sublist (py_str t @ '' '' @ py_str v) (lower (image_name im))) imgs of
        m # ms \<Rightarrow> Inr m
      | [] \<Rightarrow>
         (case filter (\<lambda>im. sublist (py_str t @ ''-'' @ py_str v) (lower (image_name im))) imgs of
            m # ms \<Rightarrow> Inr m
          | [] \<Rightarrow> Inl (RuntimeError [''Could not find an image for %s %s'', py_str t, py_str v])))
   \<and> (lower t' = t' \<and> lower v' = v'
        \<longrightarrow> image_property imgs (Some t') (Some v') = image_selection_spec imgs t' v')"
proof (intro conjI impI)
  show "image_property imgs t v =
     (case filter (\<lambda>im. sublist (py_str t @ '' '' @ py_str v) (lower (image_name im))) imgs of
        m # ms \<Rightarrow> Inr m
      | [] \<Rightarrow>
         (case filter (\<lambda>im. sublist (py_str t @ ''-'' @ py_str v) (lower (image_name im))) imgs of
            m # ms \<Rightarrow> Inr m
          | [] \<Rightarrow> Inl (RuntimeError [''Could not find an image for %s %s'', py_str t, py_str v])))"
    by (rule image_property_unfold)
next
  assume low: "lower t' = t' \<and> lower v' = v'"
  then have eq: "lower (t' @ '' '' @ v') = t' @ '' '' @ v'" "lower (t' @ ''-'' @ v') = t' @ ''-'' @ v'"
    by (simp_all only: lower_append lower_separators)
  have str: "py_str (Some t') = t'" "py_str (Some v') = v'"
    by (simp_all add: py_str_def)
  show "image_property imgs (Some t') (Some v') = image_selection_spec imgs t' v'"
    unfolding image_property_unfold image_selection_spec_def str eq ..
qed

lemma lower_examples:
  "lower ''ubuntu'' = ''ubuntu''" "lower ''18.04'' = ''18.04''"
  "lower ''centos'' = ''centos''" "lower ''7'' = ''7''"
  by code_simp+

theorem image_property_selection_witness:
  "lower ''ubuntu'' = ''ubuntu'' \<and> lower ''18.04'' = ''18.04''
   \<and> image_selection_spec [ubuntu_image, centos_image] ''ubuntu'' ''18.04'' = Inr ubuntu_image
   \<and> image_property [ubuntu_image, centos_image] (Some ''ubuntu'') (Some ''18.04'') = Inr ubuntu_image
   \<and> lower ''centos'' = ''centos'' \<and> lower ''7'' = ''7''
   \<and> image_selection_spec [ubuntu_image, centos_image] ''centos'' ''7'' = Inr centos_image
   \<and> image_property [ubuntu_image, centos_image] (Some ''centos'') (Some ''7'') = Inr centos_image"
proof -
  have a: "image_selection_spec [ubuntu_image, centos_image] ''ubuntu'' ''18.04'' = Inr ubuntu_image"
    by code_simp
  have b: "image_selection_spec [ubuntu_image, centos_image] ''centos'' ''7'' = Inr centos_image"
    by code_simp
  from image_property_selection [of "[ubuntu_image, centos_image]" "Some ''ubuntu''"
      "Some ''18.04''" "''ubuntu''" "''18.04''", THEN conjunct2] a
  have c: "image_property [ubuntu_image, centos_image] (Some ''ubuntu'') (Some ''18.04'') = Inr ubuntu_image"
    by (simp add: lower_examples)
  from image_property_selection [of "[ubuntu_image, centos_image]" "Some ''centos''"
      "Some ''7''" "''centos''" "''7''", THEN conjunct2] b
  have d: "image_property [ubuntu_image, centos_image] (Some ''centos'') (Some ''7'') = Inr centos_image"
    by (simp add: lower_examples)
  from a b c d show ?thesis by (simp add: lower_examples)
qed

text \<open>
  Claim C4 as stated fails: the catalog name \<open>Ubuntu 18.04 server\<close> contains the request
  \<open>Ubuntu 18.04\<close> when case is ignored, and the specification's selection returns that
  image, yet \<open>image_property\<close> finds no image, because only the catalog name is folded to
  lower case.
\<close>

theorem image_property_case_counterexample:
  "sublist (lower (''Ubuntu'' @ '' '' @ ''18.04'')) (lower (image_name ubuntu_image))
   \<and> image_selection_spec [ubuntu_image, centos_image] ''Ubuntu'' ''18.04'' = Inr ubuntu_image
   \<and> image_property [ubuntu_image, centos_image] (Some ''Ubuntu'') (Some ''18.04'') =
       Inl (RuntimeError [''Could not find an image for %s %s'', ''Ubuntu'', ''18.04''])"
  by code_simp

section \<open>The record of calls that a retried call leaves\<close>

lemma retry_from_exhausted:
  "24 \<le> tries \<Longrightarrow> retry_from tries fn f s = (Inl MaxWhileTries, s)"
  by (subst retry_from.simps) (simp add: proceed_def)

lemma retry_from_invoke:
  assumes "n = 24 - tries" and "tries < 24" and "retry_from tries fn (invoke c m) s = (r, s')"
  shows "\<exists>k. 1 \<le> k \<and> k \<le> 24 - tries \<and> s' = s\<lparr>calls := calls s @ replicate k c\<rparr>"
  using assms
proof (induction n arbitrary: tries s)
  case 0
  then show ?case by simp
next
  case (Suc n)
  let ?s1 = "s\<lparr>calls := calls s @ [c]\<rparr>"
  have step: "retry_from tries fn (invoke c m) s =
      (case after_call (tries + 1) fn (m (calls s)) of
         Inr result \<Rightarrow> (Inr result, ?s1)
       | Inl e \<Rightarrow> if e \<in> set RETRY_EXCEPTIONS then retry_from (tries + 1) fn (invoke c m) ?s1
                  else (Inl e, ?s1))"
    using Suc.prems(2)
    by (subst retry_from.simps) (simp add: proceed_def invoke_def)
  show ?case
  proof (cases "\<exists>e. after_call (tries + 1) fn (m (calls s)) = Inl e \<and> e \<in> set RETRY_EXCEPTIONS")
    case False
    then have "s' = ?s1"
      using Suc.prems(3) unfolding step by (auto split: sum.splits if_splits)
    then show ?thesis using Suc.prems(2) by (intro exI [of _ 1]) simp
  next
    case True
    then have again: "retry_from (tries + 1) fn (invoke c m) ?s1 = (r, s')"
      using Suc.prems(3) unfolding step by auto
    show ?thesis
    proof (cases "tries + 1 < 24")
      case False
      then have "s' = ?s1"
        using again by (simp add: retry_from_exhausted)
      then show ?thesis using Suc.prems(2) by (intro exI [of _ 1]) simp
    next
      case True
      have "n = 24 - (tries + 1)" using Suc.prems(1) by simp
      from Suc.IH [OF this True again]
      obtain k where k: "1 \<le> k" "k \<le> 24 - (tries + 1)"
        "s' = ?s1\<lparr>calls := calls ?s1 @ replicate k c\<rparr>"
        by blast
      have "s' = s\<lparr>calls := calls s @ replicate (Suc k) c\<rparr>"
        using k(3) by (simp add: replicate_app_Cons_same)
      then show ?thesis using k(1,2) True by (intro exI [of _ "Suc k"]) simp
    qed
  qed
qed

lemma retry_invoke:
  assumes "retry fn (invoke c m) s = (r, s')"
  shows "\<exists>k. 1 \<le> k \<and> k \<le> 24 \<and> s' = s\<lparr>calls := calls s @ replicate k c\<rparr>"
  using retry_from_invoke [of "24" 0 fn c m s r s'] assms by (simp add: retry_def)

lemma retry_invoke_snd:
  "\<exists>k. 1 \<le> k \<and> k \<le> 24 \<and> snd (retry fn (invoke c m) s) = s\<lparr>calls := calls s @ replicate k c\<rparr>"
  using retry_invoke [of fn c m s "fst (retry fn (invoke c m) s)" "snd (retry fn (invoke c m) s)"]
  by simp

lemma attempts_replicate: "1 \<le> k \<Longrightarrow> k \<le> 24 \<Longrightarrow> attempts c (replicate k c)"
  by (auto simp: attempts_def list_all_iff)

section \<open>The sweep over the volumes of a node\<close>

lemma swept_head:
  assumes "swept vols tr"
  shows "takeWhile (\<lambda>c. c = DestroyVolume v) tr = [] \<and> dropWhile (\<lambda>c. c = DestroyVolume v) tr = tr"
proof (cases vols)
  case Nil
  then show ?thesis using assms by simp
next
  case (Cons w ws)
  then have "takeWhile (\<lambda>c. c = DetachVolume w) tr \<noteq> []"
    using assms by (simp add: Let_def attempts_def)
  then obtain x xs where "tr = x # xs" "x = DetachVolume w"
    by (cases tr) (auto split: if_splits)
  then show ?thesis by simp
qed

lemma takeWhile_replicate_same:
  "takeWhile (\<lambda>c. c = x) (replicate k x @ ys) = replicate k x @ takeWhile (\<lambda>c. c = x) ys"
  by (induction k) simp_all

lemma dropWhile_replicate_same:
  "dropWhile (\<lambda>c. c = x) (replicate k x @ ys) = dropWhile (\<lambda>c. c = x) ys"
  by (induction k) simp_all

lemma swept_Cons:
  assumes "1 \<le> k" "k \<le> 24" "1 \<le> m" "m \<le> 24" "swept vols tr"
  shows "swept (v # vols) (replicate k (DetachVolume v) @ replicate m (DestroyVolume v) @ tr)"
proof -
  let ?D = "DetachVolume v" and ?X = "DestroyVolume v"
  obtain m' where m': "m = Suc m'" using assms(3) by (cases m) auto
  have t1: "takeWhile (\<lambda>c. c = ?D) (replicate k ?D @ replicate m ?X @ tr) = replicate k ?D"
    by (simp add: takeWhile_replicate_same m')
  have d1: "dropWhile (\<lambda>c. c = ?D) (replicate k ?D @ replicate m ?X @ tr) = replicate m ?X @ tr"
    by (simp add: dropWhile_replicate_same m')
  have t2: "takeWhile (\<lambda>c. c = ?X) (replicate m ?X @ tr) = replicate m ?X"
    using swept_head [OF assms(5), of v] by (simp add: takeWhile_replicate_same)
  have d2: "dropWhile (\<lambda>c. c = ?X) (replicate m ?X @ tr) = tr"
    using swept_head [OF assms(5), of v] by (simp add: dropWhile_replicate_same)
  show ?thesis
    unfolding swept.simps Let_def t1 d1 t2 d2
    using assms by (simp add: attempts_replicate)
qed


lemma destroy_volumes_loop_swept:
  "\<exists>tr. destroy_volumes_loop d vols s = s\<lparr>calls := calls s @ tr\<rparr> \<and> swept vols tr"
proof (induction vols arbitrary: s)
  case Nil
  show ?case by (intro exI [of _ "[]"]) simp
next
  case (Cons v vols)
  let ?s1 = "snd (retry (Some ''detach_volume'') (invoke (DetachVolume v) (detach_volume d v)) s)"
  let ?s2 = "snd (retry (Some ''destroy_volume'') (invoke (DestroyVolume v) (destroy_volume d v)) ?s1)"
  obtain k where k: "1 \<le> k" "k \<le> 24" "?s1 = s\<lparr>calls := calls s @ replicate k (DetachVolume v)\<rparr>"
    using retry_invoke_snd by blast
  obtain m where m: "1 \<le> m" "m \<le> 24" "?s2 = ?s1\<lparr>calls := calls ?s1 @ replicate m (DestroyVolume v)\<rparr>"
    using retry_invoke_snd by blast
  obtain tr where tr: "destroy_volumes_loop d vols ?s2 = ?s2\<lparr>calls := calls ?s2 @ tr\<rparr>" "swept vols tr"
    using Cons.IH by blast
  have "destroy_volumes_loop d (v # vols) s = destroy_volumes_loop d vols ?s2"
    by (simp add: Let_def case_prod_unfold)
  also have "\<dots> = s\<lparr>calls := calls s @ replicate k (DetachVolume v) @ replicate m (DestroyVolume v) @ tr\<rparr>"
    unfolding tr(1) unfolding m(3) unfolding k(3) by simp
  finally show ?case
    using swept_Cons [OF k(1,2) m(1,2) tr(2)] by blast
qed

text \<open>
  Claim C9. Whatever the backend does on the detach and destroy calls, once the volume
  listing has returned, \<open>destroy_volumes\<close> returns normally, and the calls it has made
  after the listing are, for each volume whose name starts with the node's name and an
  underscore, in the order of the listing, the attempts to detach it followed by the
  attempts to destroy it: no failure of one step keeps the next step or the next volume
  from being tried, and none is propagated.
\<close>

theorem destroy_volumes_best_effort:
  "retry (Some ''list_volumes'') (invoke ListVolumes (list_volumes d)) s = (Inr all_volumes, s1)
   \<longrightarrow> (\<exists>tr. destroy_volumes d p s = (Inr (), s1\<lparr>calls := calls s1 @ tr\<rparr>)
             \<and> swept (our_volumes (name p) all_volumes) tr)"
proof
  assume "retry (Some ''list_volumes'') (invoke ListVolumes (list_volumes d)) s = (Inr all_volumes, s1)"
  then have "destroy_volumes d p s =
      (Inr (), destroy_volumes_loop d (our_volumes (name p) all_volumes) s1)"
    by (simp add: destroy_volumes_def)
  then show "\<exists>tr. destroy_volumes d p s = (Inr (), s1\<lparr>calls := calls s1 @ tr\<rparr>)
             \<and> swept (our_volumes (name p) all_volumes) tr"
    using destroy_volumes_loop_swept [of d "our_volumes (name p) all_volumes" s1] by auto
qed

lemma stubborn_listing:
  "retry (Some ''list_volumes'') (invoke ListVolumes (list_volumes stubborn_cloud)) fresh =
     (Inr [vol_0, vol_foreign, vol_1], fresh\<lparr>calls := [ListVolumes]\<rparr>)"
  by code_simp

lemma stubborn_sweep:
  "destroy_volumes stubborn_cloud node1_provisioner fresh =
     (Inr (), fresh\<lparr>calls := [ListVolumes, DetachVolume vol_0, DestroyVolume vol_0,
                              DetachVolume vol_1, DestroyVolume vol_1, DestroyVolume vol_1]\<rparr>)"
  by code_simp

theorem destroy_volumes_best_effort_witness:
  "retry (Some ''list_volumes'') (invoke ListVolumes (list_volumes stubborn_cloud)) fresh =
     (Inr [vol_0, vol_foreign, vol_1], fresh\<lparr>calls := [ListVolumes]\<rparr>)
   \<and> our_volumes (name node1_provisioner) [vol_0, vol_foreign, vol_1] = [vol_0, vol_1]
   \<and> fst (retry (Some ''detach_volume'') (invoke (DetachVolume vol_0) (detach_volume stubborn_cloud vol_0))
            (fresh\<lparr>calls := [ListVolumes]\<rparr>)) = Inl (OtherError ''not attached'')
   \<and> fst (destroy_volumes stubborn_cloud node1_provisioner fresh) = Inr ()
   \<and> calls (snd (destroy_volumes stubborn_cloud node1_provisioner fresh)) =
       [ListVolumes, DetachVolume vol_0, DestroyVolume vol_0,
        DetachVolume vol_1, DestroyVolume vol_1, DestroyVolume vol_1]"
proof -
  have ours: "our_volumes (name node1_provisioner) [vol_0, vol_foreign, vol_1] = [vol_0, vol_1]"
    by code_simp
  have refused: "fst (retry (Some ''detach_volume'') (invoke (DetachVolume vol_0) (detach_volume stubborn_cloud vol_0))
            (fresh\<lparr>calls := [ListVolumes]\<rparr>)) = Inl (OtherError ''not attached'')"
    by code_simp
  from destroy_volumes_best_effort [of stubborn_cloud fresh "[vol_0, vol_foreign, vol_1]"
      "fresh\<lparr>calls := [ListVolumes]\<rparr>" node1_provisioner] stubborn_listing
  have "fst (destroy_volumes stubborn_cloud node1_provisioner fresh) = Inr ()"
    by auto
  with ours refused stubborn_listing stubborn_sweep show ?thesis by simp
qed

section \<open>Node lookup and destruction\<close>

lemma node_property_cached:
  "node_cache s = Some n \<Longrightarrow> node_property d p s = (Inr (Some n), s)"
  by (simp add: node_property_def)

lemma node_property_lookup:
  assumes "node_cache s = None"
    and "retry (Some ''list_nodes'') (invoke ListNodes (list_nodes d)) s = (Inr nodes, s1)"
    and "nodes \<noteq> []"
  shows "node_property d p s =
     (case filter (\<lambda>node. node_name node = name p) nodes of
        [] \<Rightarrow> (Inr None, s1)
      | [m] \<Rightarrow> (Inr (Some m), s1\<lparr>node_cache := Some m\<rparr>)
      | m # m' # ms \<Rightarrow>
          (Inl (RuntimeError [''More than one node found with name '' @ quoted (name p)]), s1))"
  using assms by (cases nodes) (simp_all add: node_property_def)

text \<open>
  Claim C7, at the empty node catalog. The backend lists no node at all, so no node has
  the name; the lookup does not report that nothing was found but ends in
  \<open>AttributeError\<close>, after the one listing.
\<close>

theorem node_property_empty_catalog:
  "list_nodes quiet_cloud [] = Inr []
   \<and> node_property quiet_cloud node1_provisioner fresh =
       (Inl AttributeError, fresh\<lparr>calls := [ListNodes]\<rparr>)"
  by code_simp

text \<open>The same lookup makes \<open>destroy\<close> raise on the empty catalog.\<close>

lemma destroy_empty_catalog:
  "destroy quiet_cloud node1_provisioner fresh = (Inl AttributeError, fresh\<lparr>calls := [ListNodes]\<rparr>)"
  by code_simp

text \<open>
  Claim C8, as the code has it, for a session that has no node cached. When the node
  catalog is not empty and holds no node of the name, \<open>destroy\<close> returns \<open>True\<close> and has
  made no call but the retried listing of nodes. When exactly one node has the name and
  the listing of volumes returns, \<open>destroy\<close> sweeps the volumes whose name starts with
  the node's name and an underscore and then makes the call that destroys the node,
  whose result or exception is its own; when the listing of volumes raises, that
  exception is the result. When more than one node has the name, the ambiguity error is
  raised and nothing is swept or destroyed.
\<close>

theorem destroy_by_catalog:
  assumes "node_cache s = None"
    and "retry (Some ''list_nodes'') (invoke ListNodes (list_nodes d)) s = (Inr nodes, s1)"
    and "nodes \<noteq> []"
  shows "(\<exists>k. 1 \<le> k \<and> k \<le> 24 \<and> s1 = s\<lparr>calls := calls s @ replicate k ListNodes\<rparr>)
    \<and> (filter (\<lambda>n. node_name n = name p) nodes = [] \<longrightarrow> destroy d p s = (Inr True, s1))
    \<and> (\<forall>m. filter (\<lambda>n. node_name n = name p) nodes = [m] \<longrightarrow>
          (\<forall>vols s2. retry (Some ''list_volumes'') (invoke ListVolumes (list_volumes d)) (s1\<lparr>node_cache := Some m\<rparr>)
                        = (Inr vols, s2) \<longrightarrow>
             (\<exists>tr. swept (our_volumes (name p) vols) tr
                  \<and> destroy d p s =
                      invoke (DestroyNode m) (destroy_node d m) (s2\<lparr>calls := calls s2 @ tr\<rparr>)))
          \<and> (\<forall>e s2. retry (Some ''list_volumes'') (invoke ListVolumes (list_volumes d)) (s1\<lparr>node_cache := Some m\<rparr>)
                        = (Inl e, s2) \<longrightarrow> destroy d p s = (Inl e, s2)))
    \<and> (1 < length (filter (\<lambda>n. node_name n = name p) nodes) \<longrightarrow>
          destroy d p s =
            (Inl (RuntimeError [''More than one node found with name '' @ quoted (name p)]), s1))"
proof (intro conjI impI allI)
  show "\<exists>k. 1 \<le> k \<and> k \<le> 24 \<and> s1 = s\<lparr>calls := calls s @ replicate k ListNodes\<rparr>"
    using retry_invoke [OF assms(2)] .
next
  assume "filter (\<lambda>n. node_name n = name p) nodes = []"
  then show "destroy d p s = (Inr True, s1)"
    by (simp add: destroy_def node_property_lookup [OF assms])
next
  fix m vols s2
  assume one: "filter (\<lambda>n. node_name n = name p) nodes = [m]"
    and vl: "retry (Some ''list_volumes'') (invoke ListVolumes (list_volumes d)) (s1\<lparr>node_cache := Some m\<rparr>) = (Inr vols, s2)"
  obtain tr where tr: "destroy_volumes d p (s1\<lparr>node_cache := Some m\<rparr>) = (Inr (), s2\<lparr>calls := calls s2 @ tr\<rparr>)"
      "swept (our_volumes (name p) vols) tr"
    using destroy_volumes_loop_swept [of d "our_volumes (name p) vols" s2] vl
    by (auto simp: destroy_volumes_def)
  obtain k where "s2 = (s1\<lparr>node_cache := Some m\<rparr>)\<lparr>calls := calls (s1\<lparr>node_cache := Some m\<rparr>) @ replicate k ListVolumes\<rparr>"
    using retry_invoke [OF vl] by blast
  then have "node_cache (s2\<lparr>calls := calls s2 @ tr\<rparr>) = Some m"
    by simp
  then have "node_property d p (s2\<lparr>calls := calls s2 @ tr\<rparr>) = (Inr (Some m), s2\<lparr>calls := calls s2 @ tr\<rparr>)"
    by (rule node_property_cached)
  then have "destroy d p s = invoke (DestroyNode m) (destroy_node d m) (s2\<lparr>calls := calls s2 @ tr\<rparr>)"
    using one tr(1) by (simp add: destroy_def node_property_lookup [OF assms])
  with tr(2) show "\<exists>tr. swept (our_volumes (name p) vols) tr
                  \<and> destroy d p s =
                      invoke (DestroyNode m) (destroy_node d m) (s2\<lparr>calls := calls s2 @ tr\<rparr>)"
    by blast
next
  fix m e s2
  assume one: "filter (\<lambda>n. node_name n = name p) nodes = [m]"
    and vl: "retry (Some ''list_volumes'') (invoke ListVolumes (list_volumes d)) (s1\<lparr>node_cache := Some m\<rparr>) = (Inl e, s2)"
  then show "destroy d p s = (Inl e, s2)"
    by (simp add: destroy_def node_property_lookup [OF assms] destroy_volumes_def)
next
  assume "1 < length (filter (\<lambda>n. node_name n = name p) nodes)"
  then obtain m m' ms where "filter (\<lambda>n. node_name n = name p) nodes = m # m' # ms"
    by (cases "filter (\<lambda>n. node_name n = name p) nodes" rule: remdups_adj.cases) auto
  then show "destroy d p s =
            (Inl (RuntimeError [''More than one node found with name '' @ quoted (name p)]), s1)"
    by (simp add: destroy_def node_property_lookup [OF assms])
qed

lemma other_cloud_nodes:
  "retry (Some ''list_nodes'') (invoke ListNodes (list_nodes other_cloud)) fresh = (Inr [node2], fresh\<lparr>calls := [ListNodes]\<rparr>)"
  by code_simp

lemma one_cloud_nodes:
  "retry (Some ''list_nodes'') (invoke ListNodes (list_nodes one_cloud)) fresh = (Inr [node2, node1], fresh\<lparr>calls := [ListNodes]\<rparr>)"
  by code_simp

lemma one_cloud_volumes:
  "retry (Some ''list_volumes'') (invoke ListVolumes (list_volumes one_cloud)) (fresh\<lparr>calls := [ListNodes], node_cache := Some node1\<rparr>)
     = (Inr [vol_0, vol_foreign, vol_1], fresh\<lparr>calls := [ListNodes, ListVolumes], node_cache := Some node1\<rparr>)"
  by code_simp

lemma one_cloud_destroy:
  "destroy one_cloud node1_provisioner fresh =
     (Inr True, fresh\<lparr>calls := [ListNodes, ListVolumes, DetachVolume vol_0, DestroyVolume vol_0,
                                 DetachVolume vol_1, DestroyVolume vol_1, DestroyNode node1],
                       node_cache := Some node1\<rparr>)"
  by code_simp

theorem destroy_by_catalog_witness:
  "node_cache fresh = None
   \<and> retry (Some ''list_nodes'') (invoke ListNodes (list_nodes other_cloud)) fresh = (Inr [node2], fresh\<lparr>calls := [ListNodes]\<rparr>)
   \<and> filter (\<lambda>n. node_name n = name node1_provisioner) [node2] = []
   \<and> destroy other_cloud node1_provisioner fresh = (Inr True, fresh\<lparr>calls := [ListNodes]\<rparr>)
   \<and> retry (Some ''list_nodes'') (invoke ListNodes (list_nodes one_cloud)) fresh = (Inr [node2, node1], fresh\<lparr>calls := [ListNodes]\<rparr>)
   \<and> filter (\<lambda>n. node_name n = name node1_provisioner) [node2, node1] = [node1]
   \<and> destroy one_cloud node1_provisioner fresh =
       (Inr True, fresh\<lparr>calls := [ListNodes, ListVolumes, DetachVolume vol_0, DestroyVolume vol_0,
                                   DetachVolume vol_1, DestroyVolume vol_1, DestroyNode node1],
                         node_cache := Some node1\<rparr>)"
proof -
  have c: "node_cache fresh = None" by (simp add: fresh_def)
  have f1: "filter (\<lambda>n. node_name n = name node1_provisioner) [node2] = []"
    by code_simp
  have f2: "filter (\<lambda>n. node_name n = name node1_provisioner) [node2, node1] = [node1]"
    by code_simp
  from destroy_by_catalog [OF c other_cloud_nodes, of node1_provisioner] f1
  have a: "destroy other_cloud node1_provisioner fresh = (Inr True, fresh\<lparr>calls := [ListNodes]\<rparr>)"
    by simp
  from c f1 f2 a other_cloud_nodes one_cloud_nodes one_cloud_destroy show ?thesis
    by simp
qed

text \<open>
  Claim C8 as stated fails where more than one node has the name: the catalog holds a
  matching node, yet \<open>destroy\<close> raises the ambiguity error after the listing of nodes,
  without any call on a volume and without the call that destroys a node.
\<close>

theorem destroy_ambiguous_counterexample:
  "filter (\<lambda>n. node_name n = name node1_provisioner) [node1, node2, node1_twin] = [node1, node1_twin]
   \<and> retry (Some ''list_nodes'') (invoke ListNodes (list_nodes twin_cloud)) fresh =
       (Inr [node1, node2, node1_twin], fresh\<lparr>calls := [ListNodes]\<rparr>)
   \<and> destroy twin_cloud node1_provisioner fresh =
       (Inl (RuntimeError [''More than one node found with name '' @ quoted ''node1'']),
        fresh\<lparr>calls := [ListNodes]\<rparr>)"
  by code_simp

section \<open>Node lookup on a catalog that is not empty\<close>

text \<open>
  The node property, for a session without a cached node whose retried listing of nodes
  returns a catalog that is not empty. No node of the name: the result is \<open>None\<close> and
  nothing is cached. Exactly one: it is returned and cached, and a second access
  returns the same node without any further call. More than one: the ambiguity error.
\<close>

theorem node_property_nonempty:
  assumes "node_cache s = None"
    and "retry (Some ''list_nodes'') (invoke ListNodes (list_nodes d)) s = (Inr nodes, s1)"
    and "nodes \<noteq> []"
  shows "(filter (\<lambda>n. node_name n = name p) nodes = [] \<longrightarrow>
            node_property d p s = (Inr None, s1) \<and> node_cache s1 = None)
    \<and> (\<forall>m. filter (\<lambda>n. node_name n = name p) nodes = [m] \<longrightarrow>
            node_property d p s = (Inr (Some m), s1\<lparr>node_cache := Some m\<rparr>)
          \<and> node_property d p (s1\<lparr>node_cache := Some m\<rparr>)
              = (Inr (Some m), s1\<lparr>node_cache := Some m\<rparr>))
    \<and> (1 < length (filter (\<lambda>n. node_name n = name p) nodes) \<longrightarrow>
            node_property d p s =
              (Inl (RuntimeError [''More than one node found with name '' @ quoted (name p)]), s1))"
proof (intro conjI impI allI)
  assume "filter (\<lambda>n. node_name n = name p) nodes = []"
  then show "node_property d p s = (Inr None, s1)"
    by (simp add: node_property_lookup [OF assms])
next
  from retry_invoke [OF assms(2)] show "node_cache s1 = None"
    using assms(1) by auto
next
  fix m assume "filter (\<lambda>n. node_name n = name p) nodes = [m]"
  then show "node_property d p s = (Inr (Some m), s1\<lparr>node_cache := Some m\<rparr>)"
    by (simp add: node_property_lookup [OF assms])
next
  fix m
  show "node_property d p (s1\<lparr>node_cache := Some m\<rparr>) = (Inr (Some m), s1\<lparr>node_cache := Some m\<rparr>)"
    by (rule node_property_cached) simp
next
  assume "1 < length (filter (\<lambda>n. node_name n = name p) nodes)"
  then obtain m m' ms where "filter (\<lambda>n. node_name n = name p) nodes = m # m' # ms"
    by (cases "filter (\<lambda>n. node_name n = name p) nodes" rule: remdups_adj.cases) auto
  then show "node_property d p s =
              (Inl (RuntimeError [''More than one node found with name '' @ quoted (name p)]), s1)"
    by (simp add: node_property_lookup [OF assms])
qed

theorem node_property_nonempty_witness:
  "node_cache fresh = None
   \<and> retry (Some ''list_nodes'') (invoke ListNodes (list_nodes one_cloud)) fresh = (Inr [node2, node1], fresh\<lparr>calls := [ListNodes]\<rparr>)
   \<and> filter (\<lambda>n. node_name n = name node1_provisioner) [node2, node1] = [node1]
   \<and> node_property one_cloud node1_provisioner fresh
       = (Inr (Some node1), fresh\<lparr>calls := [ListNodes], node_cache := Some node1\<rparr>)
   \<and> node_property one_cloud node1_provisioner (fresh\<lparr>calls := [ListNodes], node_cache := Some node1\<rparr>)
       = (Inr (Some node1), fresh\<lparr>calls := [ListNodes], node_cache := Some node1\<rparr>)"
proof -
  have c: "node_cache fresh = None" by (simp add: fresh_def)
  have f: "filter (\<lambda>n. node_name n = name node1_provisioner) [node2, node1] = [node1]"
    by code_simp
  from node_property_nonempty [OF c one_cloud_nodes, of node1_provisioner] f
  have "node_property one_cloud node1_provisioner fresh
       = (Inr (Some node1), fresh\<lparr>calls := [ListNodes], node_cache := Some node1\<rparr>)"
    "node_property one_cloud node1_provisioner (fresh\<lparr>calls := [ListNodes], node_cache := Some node1\<rparr>)
       = (Inr (Some node1), fresh\<lparr>calls := [ListNodes], node_cache := Some node1\<rparr>)"
    by simp_all
  with c f one_cloud_nodes show ?thesis by simp
qed

section \<open>Volume provisioning and its rollback\<close>

lemma create_volumes_loop_append:
  "create_volumes_loop d p (xs @ ys) s =
     (case create_volumes_loop d p xs s of
        (Inl e, s') \<Rightarrow> (Inl e, s')
      | (Inr u, s') \<Rightarrow> create_volumes_loop d p ys s')"
  by (induction xs arbitrary: s) (auto simp: Let_def split: prod.splits sum.splits)

lemma create_volumes_loop_abort:
  assumes "create_volumes_loop d p finished s0 = (Inr (), s1)"
    and "create_volumes_loop d p [vname] s1 = (Inl e, s2)"
  shows "create_volumes_loop d p (finished @ vname # remaining) s0 = (Inl e, s2)"
proof -
  have "create_volumes_loop d p (finished @ [vname] @ remaining) s0 =
        create_volumes_loop d p ([vname] @ remaining) s1"
    using assms(1) by (simp add: create_volumes_loop_append [of d p finished])
  also have "\<dots> = (Inl e, s2)"
    using assms(2) by (simp only: create_volumes_loop_append [of d p "[vname]"] prod.case sum.case)
  finally show ?thesis by simp
qed

text \<open>What it is for the round of one volume to raise: its creation, the lookup of the node or its attachment raises.\<close>

lemma create_volumes_loop_single:
  "create_volumes_loop d p [vname] s1 = (Inl e, s2) \<longleftrightarrow>
     retry (Some ''create_volume'') (invoke (CreateVolume (volumes_size (conf p)) vname)
                   (create_volume d (volumes_size (conf p)) vname)) s1 = (Inl e, s2)
     \<or> (\<exists>vol s'. retry (Some ''create_volume'') (invoke (CreateVolume (volumes_size (conf p)) vname)
                               (create_volume d (volumes_size (conf p)) vname)) s1 = (Inr vol, s')
            \<and> (node_property d p s' = (Inl e, s2)
               \<or> (\<exists>node s''. node_property d p s' = (Inr node, s'')
                     \<and> retry (Some ''attach_volume'') (invoke (AttachVolume node vol) (attach_volume d node vol)) s''
                         = (Inl e, s2))))"
  by (auto simp: Let_def split: prod.splits sum.splits)

text \<open>
  Claim C1. The node has started, the volumes named before \<open>vname\<close> were created and
  attached, and creating or attaching \<open>vname\<close> raises \<open>e\<close>. Then the loop ends there,
  whatever names remain, and \<open>create_volumes\<close> gives \<open>False\<close>; \<open>create\<close> goes on to the
  sweep: when its listing of volumes returns, the calls that follow are the detach and
  destroy attempts on each volume whose name starts with the node's name and an
  underscore, and \<open>create\<close> returns \<open>False\<close>; when the listing raises, that exception
  leaves \<open>create\<close>. In no case does \<open>create\<close> return the node.
\<close>

theorem create_volume_failure_rolls_back:
  assumes "start_node d p s = (Inr (), s0)"
    and "vol_names (name p) (volumes_count (conf p)) = finished @ vname # remaining"
    and "create_volumes_loop d p finished s0 = (Inr (), s1)"
    and "create_volumes_loop d p [vname] s1 = (Inl e, s2)"
  shows "create_volumes d p s0 = (False, s2)
    \<and> (\<forall>all_volumes s3. retry (Some ''list_volumes'') (invoke ListVolumes (list_volumes d)) s2 = (Inr all_volumes, s3) \<longrightarrow>
          (\<exists>tr. create d p s = (Inr ReturnFalse, s3\<lparr>calls := calls s3 @ tr\<rparr>)
               \<and> swept (our_volumes (name p) all_volumes) tr))
    \<and> (\<forall>e' s3. retry (Some ''list_volumes'') (invoke ListVolumes (list_volumes d)) s2 = (Inl e', s3) \<longrightarrow>
          create d p s = (Inl e', s3))
    \<and> (\<forall>n. fst (create d p s) \<noteq> Inr (ReturnNode n))"
proof -
  have failed: "create_volumes d p s0 = (False, s2)"
    using create_volumes_loop_abort [OF assms(3,4), of remaining] assms(2)
    by (simp add: create_volumes_def)
  have rollback: "create d p s =
      (case destroy_volumes d p s2 of
         (Inl e', s3) \<Rightarrow> (Inl e', s3)
       | (Inr u, s3) \<Rightarrow> (Inr ReturnFalse, s3))"
    using assms(1) failed by (simp add: create_def)
  show ?thesis
  proof (intro conjI allI impI)
    show "create_volumes d p s0 = (False, s2)" by (rule failed)
  next
    fix all_volumes s3
    assume "retry (Some ''list_volumes'') (invoke ListVolumes (list_volumes d)) s2 = (Inr all_volumes, s3)"
    with destroy_volumes_loop_swept [of d "our_volumes (name p) all_volumes" s3]
    obtain tr where "destroy_volumes d p s2 = (Inr (), s3\<lparr>calls := calls s3 @ tr\<rparr>)"
      "swept (our_volumes (name p) all_volumes) tr"
      by (auto simp: destroy_volumes_def)
    then show "\<exists>tr. create d p s = (Inr ReturnFalse, s3\<lparr>calls := calls s3 @ tr\<rparr>)
               \<and> swept (our_volumes (name p) all_volumes) tr"
      unfolding rollback by auto
  next
    fix e' s3
    assume "retry (Some ''list_volumes'') (invoke ListVolumes (list_volumes d)) s2 = (Inl e', s3)"
    then show "create d p s = (Inl e', s3)"
      unfolding rollback by (simp add: destroy_volumes_def)
  next
    fix n
    show "fst (create d p s) \<noteq> Inr (ReturnNode n)"
      unfolding rollback by (auto split: prod.splits sum.splits)
  qed
qed

lemma failing_cloud_start:
  "start_node failing_cloud node1_provisioner fresh = (Inr (), started)"
  by code_simp

lemma failing_cloud_names:
  "vol_names (name node1_provisioner) (volumes_count (conf node1_provisioner)) =
     [''node1_0''] @ ''node1_1'' # [''node1_2'']"
  by code_simp

lemma failing_cloud_first:
  "create_volumes_loop failing_cloud node1_provisioner [''node1_0''] started =
     (Inr (), started\<lparr>calls := calls started @
        [CreateVolume 10 ''node1_0'', AttachVolume (Some node1) vol_0]\<rparr>)"
  by code_simp

lemma failing_cloud_second:
  "create_volumes_loop failing_cloud node1_provisioner [''node1_1'']
     (started\<lparr>calls := calls started @
        [CreateVolume 10 ''node1_0'', AttachVolume (Some node1) vol_0]\<rparr>) =
     (Inl (OtherError ''quota''), started\<lparr>calls := calls started @
        [CreateVolume 10 ''node1_0'', AttachVolume (Some node1) vol_0,
         CreateVolume 10 ''node1_1'']\<rparr>)"
  by code_simp

lemma failing_cloud_create:
  "create failing_cloud node1_provisioner fresh =
     (Inr ReturnFalse, started\<lparr>calls := calls started @
        [CreateVolume 10 ''node1_0'', AttachVolume (Some node1) vol_0,
         CreateVolume 10 ''node1_1'', ListVolumes,
         DetachVolume vol_0, DestroyVolume vol_0]\<rparr>)"
  by code_simp

theorem create_volume_failure_rolls_back_witness:
  "start_node failing_cloud node1_provisioner fresh = (Inr (), started)
   \<and> vol_names (name node1_provisioner) (volumes_count (conf node1_provisioner)) =
       [''node1_0''] @ ''node1_1'' # [''node1_2'']
   \<and> create_volumes_loop failing_cloud node1_provisioner [''node1_0''] started =
       (Inr (), started\<lparr>calls := calls started @
          [CreateVolume 10 ''node1_0'', AttachVolume (Some node1) vol_0]\<rparr>)
   \<and> create_volumes_loop failing_cloud node1_provisioner [''node1_1'']
       (started\<lparr>calls := calls started @
          [CreateVolume 10 ''node1_0'', AttachVolume (Some node1) vol_0]\<rparr>) =
       (Inl (OtherError ''quota''), started\<lparr>calls := calls started @
          [CreateVolume 10 ''node1_0'', AttachVolume (Some node1) vol_0,
           CreateVolume 10 ''node1_1'']\<rparr>)
   \<and> create_volumes failing_cloud node1_provisioner started =
       (False, started\<lparr>calls := calls started @
          [CreateVolume 10 ''node1_0'', AttachVolume (Some node1) vol_0,
           CreateVolume 10 ''node1_1'']\<rparr>)
   \<and> create failing_cloud node1_provisioner fresh =
       (Inr ReturnFalse, started\<lparr>calls := calls started @
          [CreateVolume 10 ''node1_0'', AttachVolume (Some node1) vol_0,
           CreateVolume 10 ''node1_1'', ListVolumes,
           DetachVolume vol_0, DestroyVolume vol_0]\<rparr>)"
proof -
  note inst = create_volume_failure_rolls_back
    [OF failing_cloud_start failing_cloud_names failing_cloud_first failing_cloud_second]
  from inst have "create_volumes failing_cloud node1_provisioner started =
       (False, started\<lparr>calls := calls started @
          [CreateVolume 10 ''node1_0'', AttachVolume (Some node1) vol_0,
           CreateVolume 10 ''node1_1'']\<rparr>)"
    by (rule conjunct1)
  with failing_cloud_start failing_cloud_names failing_cloud_first failing_cloud_second
    failing_cloud_create
  show ?thesis by simp
qed

text \<open>
  Claim C1 as stated fails where the listing of volumes that opens the sweep raises: the
  first volume was created and attached, the creation of the second raised and
  \<open>create_volumes\<close> gave \<open>False\<close>, yet \<open>create\<close> does not return \<open>False\<close> and attempts no
  detachment and no destruction; the exception of the listing leaves it.
\<close>

theorem create_rollback_listing_counterexample:
  "start_node unlisted_cloud node1_provisioner fresh = (Inr (), started)
   \<and> create_volumes unlisted_cloud node1_provisioner started =
       (False, started\<lparr>calls := calls started @
          [CreateVolume 10 ''node1_0'', AttachVolume (Some node1) vol_0,
           CreateVolume 10 ''node1_1'']\<rparr>)
   \<and> create unlisted_cloud node1_provisioner fresh =
       (Inl (OtherError ''forbidden''), started\<lparr>calls := calls started @
          [CreateVolume 10 ''node1_0'', AttachVolume (Some node1) vol_0,
           CreateVolume 10 ''node1_1'', ListVolumes]\<rparr>)"
  by code_simp

section \<open>Volume names and ownership by prefix\<close>

declare str_nat.simps [simp del]

lemma length_str_nat_pos: "0 < length (str_nat n)"
  by (subst str_nat.simps) simp

lemma length_str_nat_mono: "i \<le> j \<Longrightarrow> length (str_nat i) \<le> length (str_nat j)"
proof (induction j arbitrary: i rule: str_nat.induct)
  case (1 j)
  show ?case
  proof (cases "i < 10")
    case True
    then have "length (str_nat i) = 1" by (subst str_nat.simps) simp
    moreover have "1 \<le> length (str_nat j)"
      using length_str_nat_pos [of j] by (simp only: One_nat_def Suc_le_eq)
    ultimately show ?thesis by (simp only:)
  next
    case False
    with "1.prems" have j: "\<not> j < 10" by simp
    have "i div 10 \<le> j div 10" using "1.prems" by (rule div_le_mono)
    then have "length (str_nat (i div 10)) \<le> length (str_nat (j div 10))"
      using "1.IH" [OF j] by simp
    moreover have "length (str_nat i) = Suc (length (str_nat (i div 10)))"
      using False by (subst str_nat.simps) simp
    moreover have "length (str_nat j) = Suc (length (str_nat (j div 10)))"
      using j by (subst str_nat.simps) simp
    ultimately show ?thesis by simp
  qed
qed

lemma length_zero_pad:
  assumes "i < nat cnt"
  shows "length (zero_pad (length (str_int (cnt - 1))) i) = length (str_int (cnt - 1))"
proof -
  from assms have "0 \<le> cnt - 1" "i \<le> nat (cnt - 1)" by simp_all
  then have "length (str_nat i) \<le> length (str_int (cnt - 1))"
    using length_str_nat_mono [of i "nat (cnt - 1)"] by (simp add: str_int_def)
  then show ?thesis by (simp add: zero_pad_def)
qed

lemma vol_names_prefix: "n \<in> set (vol_names nm cnt) \<Longrightarrow> prefix (nm @ ''_'') n"
  by (auto simp: vol_names_def)

lemma node_property_calls:
  assumes "node_property d p s = (r, s')"
  shows "\<exists>k. calls s' = calls s @ replicate k ListNodes"
proof (cases "node_cache s")
  case (Some n)
  then have "s' = s" using assms by (simp add: node_property_def)
  then show ?thesis by (intro exI [of _ 0]) simp
next
  case None
  obtain r1 s1 where r1: "retry (Some ''list_nodes'') (invoke ListNodes (list_nodes d)) s = (r1, s1)"
    by (cases "retry (Some ''list_nodes'') (invoke ListNodes (list_nodes d)) s")
  from retry_invoke [OF r1] obtain k where k: "s1 = s\<lparr>calls := calls s @ replicate k ListNodes\<rparr>"
    by blast
  have "calls s' = calls s1"
    using assms None r1
    by (auto simp: node_property_def split: sum.splits list.splits)
  then show ?thesis using k by (intro exI [of _ k]) simp
qed

lemma create_volumes_loop_calls:
  assumes "create_volumes_loop d p names s = (r, s')"
  shows "\<exists>tr. calls s' = calls s @ tr \<and> (\<forall>sz n. CreateVolume sz n \<in> set tr \<longrightarrow> n \<in> set names)"
  using assms
proof (induction names arbitrary: s)
  case Nil
  then show ?case by simp
next
  case (Cons vname names)
  let ?sz = "volumes_size (conf p)"
  obtain r1 s1 where r1: "retry (Some ''create_volume'') (invoke (CreateVolume ?sz vname) (create_volume d ?sz vname)) s = (r1, s1)"
    by (cases "retry (Some ''create_volume'') (invoke (CreateVolume ?sz vname) (create_volume d ?sz vname)) s")
  from retry_invoke [OF r1] obtain k where k: "calls s1 = calls s @ replicate k (CreateVolume ?sz vname)"
    by auto
  show ?case
  proof (cases r1)
    case (Inl e)
    then have "s' = s1" using Cons.prems r1 by (simp add: Let_def)
    then show ?thesis using k by (intro exI [of _ "replicate k (CreateVolume ?sz vname)"]) auto
  next
    case (Inr vol)
    obtain r2 s2 where r2: "node_property d p s1 = (r2, s2)"
      by (cases "node_property d p s1")
    from node_property_calls [OF r2] obtain j where j: "calls s2 = calls s1 @ replicate j ListNodes"
      by blast
    show ?thesis
    proof (cases r2)
      case (Inl e)
      then have "s' = s2" using Cons.prems r1 r2 \<open>r1 = Inr vol\<close> by (simp add: Let_def)
      then show ?thesis using k j
        by (intro exI [of _ "replicate k (CreateVolume ?sz vname) @ replicate j ListNodes"]) auto
    next
      case (Inr node)
      obtain r3 s3 where r3: "retry (Some ''attach_volume'') (invoke (AttachVolume node vol) (attach_volume d node vol)) s2 = (r3, s3)"
        by (cases "retry (Some ''attach_volume'') (invoke (AttachVolume node vol) (attach_volume d node vol)) s2")
      from retry_invoke [OF r3] obtain m where m: "calls s3 = calls s2 @ replicate m (AttachVolume node vol)"
        by auto
      show ?thesis
      proof (cases r3)
        case (Inl e)
        then have "s' = s3"
          using Cons.prems r1 r2 r3 \<open>r1 = Inr vol\<close> \<open>r2 = Inr node\<close> by (simp add: Let_def)
        then show ?thesis using k j m
          by (intro exI [of _ "replicate k (CreateVolume ?sz vname) @ replicate j ListNodes
                               @ replicate m (AttachVolume node vol)"]) auto
      next
        case (Inr attached)
        then have "create_volumes_loop d p names s3 = (r, s')"
          using Cons.prems r1 r2 r3 \<open>r1 = Inr vol\<close> \<open>r2 = Inr node\<close> by (simp add: Let_def)
        from Cons.IH [OF this] obtain tr where tr: "calls s' = calls s3 @ tr"
          "\<forall>sz n. CreateVolume sz n \<in> set tr \<longrightarrow> n \<in> set names"
          by blast
        then show ?thesis using k j m
          by (intro exI [of _ "replicate k (CreateVolume ?sz vname) @ replicate j ListNodes
                               @ replicate m (AttachVolume node vol) @ tr"]) auto
      qed
    qed
  qed
qed

text \<open>
  Claim C10. Every name that \<open>vol_names\<close> generates is the node's name, an underscore
  and the index of the volume padded with zeros to the width of the last index. Every
  volume that \<open>create_volumes\<close> asks the backend to create has such a name. Every listed
  volume with such a name is in the set that the sweep selects by the prefix of the
  node's name and an underscore: the sweep finds the volumes of a node by their names
  alone.
\<close>

theorem volume_names_owned:
  "(\<forall>n\<in>set (vol_names nm cnt). \<exists>i<nat cnt.
       n = nm @ ''_'' @ replicate (length (str_int (cnt - 1)) - length (str_nat i)) (CHR ''0'')
             @ str_nat i
       \<and> length (str_nat i) \<le> length (str_int (cnt - 1)))
   \<and> (\<forall>ok s'. create_volumes d p s = (ok, s') \<longrightarrow>
         (\<exists>tr. calls s' = calls s @ tr
              \<and> (\<forall>sz n. CreateVolume sz n \<in> set tr \<longrightarrow>
                    n \<in> set (vol_names (name p) (volumes_count (conf p))))))
   \<and> (\<forall>vol\<in>set all_volumes. volume_name vol \<in> set (vol_names nm cnt)
         \<longrightarrow> vol \<in> set (our_volumes nm all_volumes))"
proof (intro conjI ballI allI impI)
  fix n assume "n \<in> set (vol_names nm cnt)"
  then obtain i where i: "i < nat cnt" "n = nm @ ''_'' @ zero_pad (length (str_int (cnt - 1))) i"
    by (auto simp: vol_names_def)
  from length_zero_pad [OF i(1)] have "length (str_nat i) \<le> length (str_int (cnt - 1))"
    by (simp add: zero_pad_def)
  with i show "\<exists>i<nat cnt.
       n = nm @ ''_'' @ replicate (length (str_int (cnt - 1)) - length (str_nat i)) (CHR ''0'')
             @ str_nat i
       \<and> length (str_nat i) \<le> length (str_int (cnt - 1))"
    by (auto simp: zero_pad_def)
next
  fix ok s' assume "create_volumes d p s = (ok, s')"
  then obtain r where "create_volumes_loop d p (vol_names (name p) (volumes_count (conf p))) s = (r, s')"
    by (auto simp: create_volumes_def split: prod.splits sum.splits)
  from create_volumes_loop_calls [OF this]
  show "\<exists>tr. calls s' = calls s @ tr
              \<and> (\<forall>sz n. CreateVolume sz n \<in> set tr \<longrightarrow>
                    n \<in> set (vol_names (name p) (volumes_count (conf p))))" .
next
  fix vol assume "vol \<in> set all_volumes" "volume_name vol \<in> set (vol_names nm cnt)"
  then show "vol \<in> set (our_volumes nm all_volumes)"
    by (simp add: our_volumes_def vol_names_prefix)
qed

lemma vol_names_11:
  "vol_names ''node1'' 11 =
     [''node1_00'', ''node1_01'', ''node1_02'', ''node1_03'', ''node1_04'', ''node1_05'',
      ''node1_06'', ''node1_07'', ''node1_08'', ''node1_09'', ''node1_10'']"
  by code_simp

lemma vol_names_3: "vol_names ''node1'' 3 = [''node1_0'', ''node1_1'', ''node1_2'']"
  by code_simp

theorem volume_names_owned_witness:
  "vol_names ''node1'' 3 = [''node1_0'', ''node1_1'', ''node1_2'']
   \<and> vol_names ''node1'' 11 =
       [''node1_00'', ''node1_01'', ''node1_02'', ''node1_03'', ''node1_04'', ''node1_05'',
        ''node1_06'', ''node1_07'', ''node1_08'', ''node1_09'', ''node1_10'']
   \<and> vol_1 \<in> set [vol_0, vol_foreign, vol_1]
   \<and> volume_name vol_1 \<in> set (vol_names ''node1'' 3)
   \<and> vol_1 \<in> set (our_volumes ''node1'' [vol_0, vol_foreign, vol_1])
   \<and> our_volumes ''node1'' [vol_0, vol_foreign, vol_1] = [vol_0, vol_1]"
proof -
  have a: "vol_1 \<in> set [vol_0, vol_foreign, vol_1]" by simp
  have b: "volume_name vol_1 \<in> set (vol_names ''node1'' 3)"
    by (simp add: vol_names_3 vol_1_def)
  from volume_names_owned [of "''node1''" 3 _ _ _ "[vol_0, vol_foreign, vol_1]"] a b
  have c: "vol_1 \<in> set (our_volumes ''node1'' [vol_0, vol_foreign, vol_1])"
    by blast
  have d: "our_volumes ''node1'' [vol_0, vol_foreign, vol_1] = [vol_0, vol_1]"
    by code_simp
  from a b c d vol_names_3 vol_names_11 show ?thesis by simp
qed

section \<open>The configuration resolver: the maximum at each numeric leaf\<close>

lemma map_of_selective_update:
  assumes "distinct (map fst b)"
  shows "map_of (selective_update f a b) k =
     (case map_of b k of
        None \<Rightarrow> map_of a k
      | Some v \<Rightarrow> (case map_of a k of None \<Rightarrow> Some v | Some old \<Rightarrow> Some (merge_value f old v)))"
  using assms
proof (induction b arbitrary: a)
  case Nil
  then show ?case by simp
next
  case (Cons kv b)
  obtain key v where kv: "kv = (key, v)" by (cases kv)
  let ?a' = "case map_of a key of
               None \<Rightarrow> AList.update key v a
             | Some old \<Rightarrow> AList.update key (merge_value f old v) a"
  from Cons.prems kv have d: "distinct (map fst b)" and fresh: "map_of b key = None"
    by (auto simp: map_of_eq_None_iff)
  have step: "selective_update f a (kv # b) = selective_update f ?a' b"
    by (simp add: kv)
  have IH: "map_of (selective_update f ?a' b) k =
     (case map_of b k of
        None \<Rightarrow> map_of ?a' k
      | Some v \<Rightarrow> (case map_of ?a' k of None \<Rightarrow> Some v | Some old \<Rightarrow> Some (merge_value f old v)))"
    by (rule Cons.IH [OF d])
  show ?case
  proof (cases "k = key")
    case True
    then have "map_of ?a' k = (case map_of a k of None \<Rightarrow> Some v | Some old \<Rightarrow> Some (merge_value f old v))"
      by (simp add: update_conv' split: option.splits)
    then show ?thesis unfolding step IH using True fresh kv by simp
  next
    case False
    then have eq: "map_of ?a' k = map_of a k"
      by (simp add: update_conv' split: option.splits)
    show ?thesis unfolding step IH eq using False kv by simp
  qed
qed

lemma distinct_selective_update:
  "distinct (map fst a) \<Longrightarrow> distinct (map fst (selective_update f a b))"
proof (induction b arbitrary: a)
  case Nil
  then show ?case by simp
next
  case (Cons kv b)
  obtain key v where kv: "kv = (key, v)" by (cases kv)
  show ?case
    unfolding kv selective_update.simps
    by (rule Cons.IH) (simp add: Cons.prems distinct_update split: option.splits)
qed

lemma larger_None [simp]: "larger None y = y" "larger x None = x"
  by (simp_all add: larger_def split: option.splits)

lemma larger_Some [simp]: "larger (Some a) (Some b) = Some (max a b)"
  by (simp add: larger_def)

lemma numeric_at_Nil: "numeric_at c [] \<Longrightarrow> \<exists>n. c = Num n"
  by (cases c) simp_all

lemma numeric_at_Cons: "numeric_at c (k # ks) \<Longrightarrow> \<exists>d. c = Dict d"
  by (cases c) simp_all

lemma merge_value_at_path:
  assumes "numeric_at old path" and "numeric_at new path"
  shows "numeric_at (merge_value (\<lambda>x y. y < x) old new) path
    \<and> leaf (merge_value (\<lambda>x y. y < x) old new) path = larger (leaf old path) (leaf new path)"
  using assms
proof (induction path arbitrary: old new)
  case Nil
  then obtain x y where "old = Num x" "new = Num y"
    using numeric_at_Nil by blast
  then show ?case by (simp add: max_def)
next
  case (Cons k ks)
  then obtain a b where ab: "old = Dict a" "new = Dict b"
    using numeric_at_Cons by blast
  from Cons.prems ab have da: "distinct (map fst a)" and db: "distinct (map fst b)"
    by simp_all
  let ?m = "selective_update (\<lambda>x y. y < x) a b"
  have m: "merge_value (\<lambda>x y. y < x) old new = Dict ?m"
    by (simp add: ab)
  have dm: "distinct (map fst ?m)"
    using da by (rule distinct_selective_update)
  note at = map_of_selective_update [OF db, of "\<lambda>x y. y < x" a k]
  show ?case
  proof (cases "map_of b k")
    case None
    then have "map_of ?m k = map_of a k" using at by simp
    then show ?thesis
      using Cons.prems dm None unfolding m ab by (simp split: option.splits)
  next
    case (Some v)
    note bv = Some
    show ?thesis
    proof (cases "map_of a k")
      case None
      then have "map_of ?m k = Some v" using at bv by simp
      then show ?thesis
        using Cons.prems dm None bv unfolding m ab by simp
    next
      case (Some w)
      then have mk: "map_of ?m k = Some (merge_value (\<lambda>x y. y < x) w v)" using at bv by simp
      have "numeric_at w ks" "numeric_at v ks"
        using Cons.prems Some bv unfolding ab by simp_all
      from Cons.IH [OF this]
      show ?thesis
        using dm Some bv mk unfolding m ab by simp
    qed
  qed
qed

lemma combine_at_path:
  assumes "\<forall>d\<in>set ds. numeric_at (Dict d) (k # ks)" and "numeric_at (Dict acc) (k # ks)"
  shows "numeric_at (Dict (foldl (selective_update (\<lambda>x y. y < x)) acc ds)) (k # ks)
    \<and> leaf (Dict (foldl (selective_update (\<lambda>x y. y < x)) acc ds)) (k # ks) =
        foldl larger (leaf (Dict acc) (k # ks)) (map (\<lambda>d. leaf (Dict d) (k # ks)) ds)"
  using assms
proof (induction ds arbitrary: acc)
  case Nil
  then show ?case by simp
next
  case (Cons d ds)
  have d: "numeric_at (Dict d) (k # ks)" using Cons.prems(1) by simp
  have step: "Dict (selective_update (\<lambda>x y. y < x) acc d) = merge_value (\<lambda>x y. y < x) (Dict acc) (Dict d)"
    by simp
  from merge_value_at_path [OF Cons.prems(2) d]
  have m: "numeric_at (Dict (selective_update (\<lambda>x y. y < x) acc d)) (k # ks)"
    "leaf (Dict (selective_update (\<lambda>x y. y < x) acc d)) (k # ks) =
       larger (leaf (Dict acc) (k # ks)) (leaf (Dict d) (k # ks))"
    unfolding step by simp_all
  have rest: "\<forall>d\<in>set ds. numeric_at (Dict d) (k # ks)" using Cons.prems(1) by simp
  from Cons.IH [OF rest m(1)] show ?case
    unfolding foldl_Cons list.map m(2) .
qed

lemma foldl_larger_Some:
  "foldl larger (Some m) xs = Some (Max (insert m (set (List.map_filter (\<lambda>x. x) xs))))"
proof (induction xs arbitrary: m)
  case Nil
  then show ?case by (simp add: List.map_filter_simps)
next
  case (Cons x xs)
  show ?case
  proof (cases x)
    case None
    then show ?thesis using Cons.IH [of m] by (simp add: List.map_filter_simps)
  next
    case (Some a)
    have "Max (insert (max m a) (set (List.map_filter (\<lambda>x. x) xs))) =
          Max (insert m (insert a (set (List.map_filter (\<lambda>x. x) xs))))"
      by (cases "set (List.map_filter (\<lambda>x. x) xs) = {}") (simp_all add: max.assoc)
    then show ?thesis using Cons.IH [of "max m a"] Some by (simp add: List.map_filter_simps)
  qed
qed

lemma foldl_larger_None:
  "List.map_filter (\<lambda>x. x) xs \<noteq> [] \<Longrightarrow> foldl larger None xs = Some (Max (set (List.map_filter (\<lambda>x. x) xs)))"
proof (induction xs)
  case Nil
  then show ?case by (simp add: List.map_filter_simps)
next
  case (Cons x xs)
  show ?case
  proof (cases x)
    case None
    then show ?thesis using Cons by (simp add: List.map_filter_simps)
  next
    case (Some a)
    then show ?thesis by (simp add: foldl_larger_Some List.map_filter_simps)
  qed
qed

lemma map_filter_id_map: "List.map_filter (\<lambda>x. x) (map f xs) = List.map_filter f xs"
  by (induction xs) (simp_all add: List.map_filter_simps split: option.splits)

lemma as_dict_Dict: "as_dict (Dict d) = Some d"
  by (simp add: as_dict_def)

lemma those_as_dict:
  assumes "\<forall>c\<in>set confs. \<exists>d. c = Dict d"
  shows "\<exists>ds. those (map as_dict confs) = Some ds \<and> confs = map Dict ds"
  using assms
proof (induction confs)
  case Nil
  then show ?case by simp
next
  case (Cons c confs)
  then obtain d ds where c: "c = Dict d" and ds: "those (map as_dict confs) = Some ds" "confs = map Dict ds"
    by auto
  have "those (map as_dict (c # confs)) = Some (d # ds)"
    unfolding c list.map those.simps as_dict_Dict ds(1) by simp
  then show ?case using c ds(2) by (intro exI [of _ "d # ds"]) simp
qed

lemma read_conf_all_absent:
  "\<exists>merged. read_conf driver_name None None = Inr merged
     \<and> Dict merged = (case map_of defaults driver_name of None \<Rightarrow> Dict [] | Some c \<Rightarrow> c)"
proof (cases "driver_name = ''openstack''")
  case True
  have "read_conf ''openstack'' None None =
     Inr [(''machine'', Dict [(''disk'', Num 20), (''ram'', Num 8000), (''cpus'', Num 1)]),
          (''volumes'', Dict [(''count'', Num 0), (''size'', Num 0)])]"
    by code_simp
  then show ?thesis using True by (simp add: defaults_def)
next
  case False
  then have "read_conf_confs driver_name None None = Inr [Dict [], Dict [], Dict [], Dict []]"
    by (simp add: read_conf_confs_def or_dict_def defaults_def Let_def)
  then show ?thesis using False
    by (simp add: read_conf_def as_dict_def combine_dicts_def defaults_def)
qed

text \<open>
  Claim C2. \<open>confs\<close> is the list of sources that \<open>read_conf\<close> merges: the per-call
  configuration, its section for the driver, the section of the global configuration
  and the section of the defaults, an absent one being an empty mapping. For a path of
  keys at which every source is shaped for a number and at least one source holds one,
  \<open>read_conf\<close> raises nothing and the merged configuration holds at the path the maximum
  of the numbers that the sources hold there. With the per-call and the global
  configuration absent, the result is the defaults' section for the driver.
\<close>

theorem read_conf_maximum:
  "(read_conf_confs driver_name cnf legacy = Inr confs
      \<and> (\<forall>c\<in>set confs. numeric_at c (key # path))
      \<and> (\<exists>c\<in>set confs. leaf c (key # path) \<noteq> None)
     \<longrightarrow> (\<exists>merged. read_conf driver_name cnf legacy = Inr merged
            \<and> leaf (Dict merged) (key # path) =
                Some (Max (set (List.map_filter (\<lambda>c. leaf c (key # path)) confs)))))
   \<and> (\<exists>merged. read_conf driver_name None None = Inr merged
         \<and> Dict merged = (case map_of defaults driver_name of None \<Rightarrow> Dict [] | Some c \<Rightarrow> c))"
proof (intro conjI impI)
  assume h: "read_conf_confs driver_name cnf legacy = Inr confs
      \<and> (\<forall>c\<in>set confs. numeric_at c (key # path))
      \<and> (\<exists>c\<in>set confs. leaf c (key # path) \<noteq> None)"
  then have "\<forall>c\<in>set confs. \<exists>d. c = Dict d"
    using numeric_at_Cons by blast
  from those_as_dict [OF this] obtain ds where ds: "those (map as_dict confs) = Some ds" "confs = map Dict ds"
    by blast
  have rc: "read_conf driver_name cnf legacy = Inr (combine_dicts ds (\<lambda>x y. y < x))"
    using h ds(1) by (simp add: read_conf_def)
  have shaped: "\<forall>d\<in>set ds. numeric_at (Dict d) (key # path)"
    using h ds(2) by simp
  have "leaf (Dict (combine_dicts ds (\<lambda>x y. y < x))) (key # path) =
      foldl larger None (map (\<lambda>d. leaf (Dict d) (key # path)) ds)"
    using combine_at_path [OF shaped, of "[]"] by (simp add: combine_dicts_def)
  also have "map (\<lambda>d. leaf (Dict d) (key # path)) ds = map (\<lambda>c. leaf c (key # path)) confs"
    by (simp add: ds(2) comp_def)
  also have "foldl larger None (map (\<lambda>c. leaf c (key # path)) confs) =
      Some (Max (set (List.map_filter (\<lambda>c. leaf c (key # path)) confs)))"
  proof -
    from h obtain c where "c \<in> set confs" "leaf c (key # path) \<noteq> None" by blast
    then have "List.map_filter (\<lambda>c. leaf c (key # path)) confs \<noteq> []"
      by (auto simp: List.map_filter_def filter_empty_conv)
    then show ?thesis
      using foldl_larger_None [of "map (\<lambda>c. leaf c (key # path)) confs"]
      by (simp add: map_filter_id_map)
  qed
  finally show "\<exists>merged. read_conf driver_name cnf legacy = Inr merged
            \<and> leaf (Dict merged) (key # path) =
                Some (Max (set (List.map_filter (\<lambda>c. leaf c (key # path)) confs)))"
    using rc by blast
next
  show "\<exists>merged. read_conf driver_name None None = Inr merged
         \<and> Dict merged = (case map_of defaults driver_name of None \<Rightarrow> Dict [] | Some c \<Rightarrow> c)"
    by (rule read_conf_all_absent)
qed

lemma example_confs:
  "read_conf_confs ''openstack'' (Some example_conf) (Some example_legacy) =
     Inr [example_conf, example_section, example_legacy, openstack_defaults]"
  by code_simp

lemma example_shaped:
  "numeric_at example_conf [''machine'', ''ram'']" "numeric_at example_section [''machine'', ''ram'']"
  "numeric_at example_legacy [''machine'', ''ram'']" "numeric_at openstack_defaults [''machine'', ''ram'']"
  by code_simp+

lemma example_leaves:
  "leaf example_conf [''machine'', ''ram''] = Some 1"
  "leaf example_section [''machine'', ''ram''] = Some 16000"
  "leaf example_legacy [''machine'', ''ram''] = Some 9000"
  "leaf openstack_defaults [''machine'', ''ram''] = Some 8000"
  by code_simp+

lemma example_merged:
  "read_conf ''openstack'' (Some example_conf) (Some example_legacy) =
     Inr [(''openstack'', example_section),
          (''machine'', Dict [(''ram'', Num 16000), (''disk'', Num 40), (''cpus'', Num 1)]),
          (''volumes'', Dict [(''count'', Num 0), (''size'', Num 0)])]"
  by code_simp

theorem read_conf_maximum_witness:
  "read_conf_confs ''openstack'' (Some example_conf) (Some example_legacy) =
     Inr [example_conf, example_section, example_legacy, openstack_defaults]
   \<and> numeric_at example_conf [''machine'', ''ram'']
   \<and> numeric_at example_section [''machine'', ''ram'']
   \<and> numeric_at example_legacy [''machine'', ''ram'']
   \<and> numeric_at openstack_defaults [''machine'', ''ram'']
   \<and> leaf example_conf [''machine'', ''ram''] = Some 1
   \<and> leaf example_section [''machine'', ''ram''] = Some 16000
   \<and> leaf example_legacy [''machine'', ''ram''] = Some 9000
   \<and> leaf openstack_defaults [''machine'', ''ram''] = Some 8000
   \<and> (case read_conf ''openstack'' (Some example_conf) (Some example_legacy) of
         Inl e \<Rightarrow> None
       | Inr merged \<Rightarrow> leaf (Dict merged) [''machine'', ''ram'']) = Some 16000
   \<and> read_conf ''openstack'' (Some example_conf) (Some example_legacy) =
       Inr [(''openstack'', example_section),
            (''machine'', Dict [(''ram'', Num 16000), (''disk'', Num 40), (''cpus'', Num 1)]),
            (''volumes'', Dict [(''count'', Num 0), (''size'', Num 0)])]"
proof -
  have shaped: "\<forall>c\<in>set [example_conf, example_section, example_legacy, openstack_defaults].
      numeric_at c [''machine'', ''ram'']"
    using example_shaped by simp
  have held: "\<exists>c\<in>set [example_conf, example_section, example_legacy, openstack_defaults].
      leaf c [''machine'', ''ram''] \<noteq> None"
    using example_leaves by simp
  have nums: "List.map_filter (\<lambda>c. leaf c [''machine'', ''ram''])
      [example_conf, example_section, example_legacy, openstack_defaults] = [1, 16000, 9000, 8000]"
    using example_leaves by (simp add: List.map_filter_simps)
  from read_conf_maximum [of "''openstack''" "Some example_conf" "Some example_legacy"
      "[example_conf, example_section, example_legacy, openstack_defaults]" "''machine''" "[''ram'']",
      THEN conjunct1] example_confs shaped held
  obtain merged where merged: "read_conf ''openstack'' (Some example_conf) (Some example_legacy) = Inr merged"
    "leaf (Dict merged) [''machine'', ''ram''] = Some (Max (set [1, 16000, 9000, 8000]))"
    unfolding nums by blast
  then have "(case read_conf ''openstack'' (Some example_conf) (Some example_legacy) of
         Inl e \<Rightarrow> None
       | Inr merged \<Rightarrow> leaf (Dict merged) [''machine'', ''ram'']) = Some 16000"
    by simp
  with example_confs example_shaped example_leaves example_merged show ?thesis
    by simp
qed

end
